theory Spec2Isabelle
  imports Complex_Main
begin

section \<open>JavaScript strings\<close>

text \<open>
  A JavaScript string is a sequence of UTF-16 code units. A code unit is modelled by its
  numeric value, so that \<open>length\<close> and positions count what \<open>input.length\<close> and
  \<open>input[i]\<close> count. \<open>str\<close> embeds a literal.
\<close>

type_synonym jstring = "nat list"

abbreviation ch :: "char \<Rightarrow> nat" where
  "ch c \<equiv> of_char c"

definition str :: "string \<Rightarrow> jstring" where
  "str s = map of_char s"

text \<open>The code units \<open>String.prototype.trim\<close> strips (WhiteSpace and LineTerminator);
  the regular expression class \<open>\s\<close> is the same set.\<close>

definition is_space :: "nat \<Rightarrow> bool" where
  "is_space c \<longleftrightarrow>
     c = 9 \<or> c = 10 \<or> c = 11 \<or> c = 12 \<or> c = 13 \<or> c = 32 \<or> c = 160 \<or> c = 5760
     \<or> (8192 \<le> c \<and> c \<le> 8202) \<or> c = 8232 \<or> c = 8233 \<or> c = 8239 \<or> c = 8287
     \<or> c = 12288 \<or> c = 65279"

text \<open>The class \<open>\d\<close>: the ASCII digits.\<close>

definition is_digit :: "nat \<Rightarrow> bool" where
  "is_digit c \<longleftrightarrow> 48 \<le> c \<and> c \<le> 57"

definition trim :: "jstring \<Rightarrow> jstring" where
  "trim s = rev (dropWhile is_space (rev (dropWhile is_space s)))"

text \<open>\<open>String.prototype.slice\<close>: a negative position counts from the end, and both
  positions are clamped to the string.\<close>

definition slice_index :: "nat \<Rightarrow> int \<Rightarrow> nat" where
  "slice_index len k = (if k < 0 then nat (max (int len + k) 0) else min (nat k) len)"

definition slice :: "jstring \<Rightarrow> int \<Rightarrow> int \<Rightarrow> jstring" where
  "slice s start fin =
     (let from = slice_index (length s) start; to = slice_index (length s) fin
      in take (to - from) (drop from s))"

text \<open>\<open>String.prototype.indexOf(pat, pos)\<close>: the first position at or after \<open>pos\<close>
  where \<open>pat\<close> occurs, or \<open>-1\<close>.\<close>

fun search_from :: "jstring \<Rightarrow> jstring \<Rightarrow> nat \<Rightarrow> int" where
  "search_from pat [] k = (if pat = [] then int k else - 1)"
| "search_from pat (x # xs) k =
     (if take (length pat) (x # xs) = pat then int k else search_from pat xs (Suc k))"

definition indexOf :: "jstring \<Rightarrow> jstring \<Rightarrow> nat \<Rightarrow> int" where
  "indexOf s pat pos = (let p = min pos (length s) in search_from pat (drop p s) p)"

definition startsWith :: "jstring \<Rightarrow> jstring \<Rightarrow> bool" where
  "startsWith s pat \<longleftrightarrow> take (length pat) s = pat"

definition endsWith :: "jstring \<Rightarrow> jstring \<Rightarrow> bool" where
  "endsWith s pat \<longleftrightarrow> length pat \<le> length s \<and> drop (length s - length pat) s = pat"

section \<open>JavaScript numbers\<close>

text \<open>
  A Number is an IEEE 754 double. The values that the conversions of this program can
  produce are the finite doubles (as the rational they denote), negative zero and the two
  infinities.
\<close>

datatype jsnumber = Finite rat | NegZero | Infinity | NegInfinity

fun bitlen :: "nat \<Rightarrow> nat" where
  "bitlen n = (if n = 0 then 0 else Suc (bitlen (n div 2)))"

text \<open>\<open>round_double n d\<close> is the double nearest to the non-negative rational \<open>n / d\<close>
  (\<open>d > 0\<close>), ties to the even significand: the significand has 53 bits, the least
  exponent is \<open>-1074\<close>, and a result of \<open>2 ^ 1024\<close> or more is \<open>Infinity\<close>.\<close>

definition round_double :: "nat \<Rightarrow> nat \<Rightarrow> jsnumber" where
  "round_double n d =
     (if n = 0 then Finite 0
      else
        let e1 = int (bitlen n) - int (bitlen d) - 53;
            over = (if e1 < 0 then (n * 2 ^ nat (- e1)) div d else n div (d * 2 ^ nat e1));
            e2 = (if 2 ^ 53 \<le> over then e1 + 1 else e1);
            e = max e2 (- 1074);
            N = (if e < 0 then n * 2 ^ nat (- e) else n);
            D = (if e < 0 then d else d * 2 ^ nat e);
            q = N div D;
            r = N mod D;
            q' = (if D < 2 * r \<or> (2 * r = D \<and> odd q) then q + 1 else q);
            v = (if e < 0 then of_nat q' / 2 ^ nat (- e) else of_nat q' * 2 ^ nat e)
        in if 2 ^ 1024 \<le> v then Infinity else Finite v)"

text \<open>The decimal value of a string of digits, and \<open>Number(s)\<close> for such a string.\<close>

definition digits_value :: "jstring \<Rightarrow> nat" where
  "digits_value s = foldl (\<lambda>acc c. 10 * acc + (c - 48)) 0 s"

definition Number_of_digits :: "jstring \<Rightarrow> jsnumber" where
  "Number_of_digits s = round_double (digits_value s) 1"

section \<open>The path parser\<close>

text \<open>An element of the array \<open>(string | number)[]\<close> that \<open>parsePath\<close> returns.\<close>

datatype accessor = Key jstring | Index jsnumber

text \<open>The test \<open>/^\d+$/\<close>: one or more digits and nothing else.\<close>

definition all_digits :: "jstring \<Rightarrow> bool" where
  "all_digits s \<longleftrightarrow> s \<noteq> [] \<and> list_all is_digit s"

text \<open>What a bracket accessor with the trimmed content \<open>inside\<close> pushes.\<close>

definition bracket_part :: "jstring \<Rightarrow> accessor" where
  "bracket_part inside =
     (if all_digits inside then Index (Number_of_digits inside)
      else if (startsWith inside (str [CHR 0x22]) \<and> endsWith inside (str [CHR 0x22]))
            \<or> (startsWith inside (str [CHR 0x27]) \<and> endsWith inside (str [CHR 0x27]))
      then Key (slice inside 1 (- 1))
      else Key inside)"

text \<open>The inner loop \<open>while (j < input.length && input[j] !== "." && input[j] !== "[") j++\<close>.\<close>

function scan_bare :: "jstring \<Rightarrow> nat \<Rightarrow> nat" where
  "scan_bare input j =
     (if j < length input \<and> input ! j \<noteq> ch CHR ''.'' \<and> input ! j \<noteq> ch CHR ''[''
      then scan_bare input (j + 1) else j)"
  by pat_completeness auto
termination
  by (relation "measure (\<lambda>(input, j). length input - j)") auto

declare scan_bare.simps [simp del]

text \<open>One iteration of the outer loop, entered with \<open>i < input.length\<close>: it either
  returns from the function or goes on with a new position and a new \<open>parts\<close>.\<close>

datatype step = Return "accessor list" | Continue nat "accessor list"

definition parsePath_body :: "jstring \<Rightarrow> nat \<Rightarrow> accessor list \<Rightarrow> step" where
  "parsePath_body input i parts =
     (if input ! i = ch CHR ''.'' then Continue (i + 1) parts
      else if input ! i = ch CHR ''['' then
        (let close = indexOf input (str '']'') (i + 1) in
         if close = - 1 then Return []
         else
           let inside = trim (slice input (int (i + 1)) close);
               parts' = parts @ [bracket_part inside];
               i' = nat (close + 1)
           in if i' < length input \<and> input ! i' = ch CHR ''.''
              then Continue (i' + 1) parts' else Continue i' parts')
      else
        (let j = scan_bare input i;
             token = trim (slice input (int i) (int j))
         in Continue j (if length token \<noteq> 0 then parts @ [Key token] else parts)))"

text \<open>The outer loop \<open>while (i < input.length)\<close> and the final \<open>return parts\<close>.\<close>

lemma scan_bare_le: "j \<le> length input \<Longrightarrow> scan_bare input j \<le> length input"
  by (induction input j rule: scan_bare.induct) (subst scan_bare.simps, simp)

lemma scan_bare_ge: "j \<le> scan_bare input j"
proof (induction input j rule: scan_bare.induct)
  case (1 input j)
  show ?case
    by (subst scan_bare.simps) (use 1 in \<open>auto simp: Suc_leD\<close>)
qed

lemma scan_bare_gt:
  "j < length input \<Longrightarrow> input ! j \<noteq> ch CHR ''.'' \<Longrightarrow> input ! j \<noteq> ch CHR ''[''
     \<Longrightarrow> j < scan_bare input j"
  using scan_bare_ge [of "j + 1" input] by (subst scan_bare.simps) simp

lemma search_from_range:
  "search_from pat xs k = - 1 \<or> (int k \<le> search_from pat xs k
     \<and> search_from pat xs k + int (length pat) \<le> int (k + length xs))"
proof (induction xs arbitrary: k)
  case Nil
  then show ?case by simp
next
  case (Cons x xs)
  show ?case
  proof (cases "take (length pat) (x # xs) = pat")
    case True
    then have "length (take (length pat) (x # xs)) = length pat"
      by simp
    then have "length pat \<le> length (x # xs)"
      by (simp only: length_take)
    with True show ?thesis by simp
  next
    case False
    with Cons [of "Suc k"] show ?thesis by auto
  qed
qed

lemma indexOf_range:
  "indexOf s pat pos = - 1 \<or> (int (min pos (length s)) \<le> indexOf s pat pos
     \<and> indexOf s pat pos + int (length pat) \<le> int (length s))"
  using search_from_range [of pat "drop (min pos (length s)) s" "min pos (length s)"]
  by (auto simp: indexOf_def Let_def)

lemma parsePath_body_advances:
  assumes "i < length input" and "parsePath_body input i parts = Continue i' parts'"
  shows "i < i' \<and> i' \<le> length input"
proof -
  consider (dot) "input ! i = ch CHR ''.''"
    | (bracket) "input ! i \<noteq> ch CHR ''.''" "input ! i = ch CHR ''[''"
    | (bare) "input ! i \<noteq> ch CHR ''.''" "input ! i \<noteq> ch CHR ''[''"
    by blast
  then show ?thesis
  proof cases
    case dot
    with assms show ?thesis by (auto simp: parsePath_body_def)
  next
    case bracket
    define close where "close = indexOf input (str '']'') (i + 1)"
    from assms bracket have ne: "close \<noteq> - 1"
      by (auto simp: parsePath_body_def Let_def close_def)
    with indexOf_range [of input "str '']''" "i + 1"] assms(1)
    have rng: "int (i + 1) \<le> close" "close + 1 \<le> int (length input)"
      by (auto simp: close_def str_def)
    from assms(2) bracket ne have "i' = nat (close + 1) \<or> i' = nat (close + 1) + 1 \<and> nat (close + 1) < length input"
      by (auto simp: parsePath_body_def Let_def close_def split: if_splits)
    with rng show ?thesis by auto
  next
    case bare
    with assms have "i' = scan_bare input i"
      by (auto simp: parsePath_body_def Let_def)
    with bare assms(1) scan_bare_gt [of i input] scan_bare_le [of i input] show ?thesis
      by simp
  qed
qed

function parsePath_loop :: "jstring \<Rightarrow> nat \<Rightarrow> accessor list \<Rightarrow> accessor list" where
  "parsePath_loop input i parts =
     (if i < length input then
        (case parsePath_body input i parts of
           Return r \<Rightarrow> r
         | Continue i' parts' \<Rightarrow> parsePath_loop input i' parts')
      else parts)"
  by pat_completeness auto
termination
  by (relation "measure (\<lambda>(input, i, parts). length input - i)")
     (use parsePath_body_advances in \<open>auto intro: diff_less_mono2\<close>)

declare parsePath_loop.simps [simp del]

definition parsePath :: "jstring \<Rightarrow> accessor list" where
  "parsePath input = parsePath_loop input 0 []"

text \<open>The same loop with a bound on the number of iterations: \<open>None\<close> when the bound
  is used up before the loop ends.\<close>

fun parsePath_iter :: "nat \<Rightarrow> jstring \<Rightarrow> nat \<Rightarrow> accessor list \<Rightarrow> accessor list option" where
  "parsePath_iter fuel input i parts =
     (if i < length input then
        (case fuel of
           0 \<Rightarrow> None
         | Suc fuel' \<Rightarrow>
             (case parsePath_body input i parts of
                Return r \<Rightarrow> Some r
              | Continue i' parts' \<Rightarrow> parsePath_iter fuel' input i' parts'))
      else Some parts)"

declare parsePath_iter.simps [simp del]

text \<open>An element that is a key and not the empty string.\<close>

definition nonempty_key :: "accessor \<Rightarrow> bool" where
  "nonempty_key a \<longleftrightarrow> (case a of Key t \<Rightarrow> t \<noteq> [] | Index n \<Rightarrow> False)"

text \<open>What the bracket accessor that opens at position \<open>p\<close> pushes, when a \<open>]\<close>
  follows it: \<open>inside\<close> is \<open>input.slice(p + 1, close).trim()\<close>.\<close>

definition bracket_at :: "jstring \<Rightarrow> nat \<Rightarrow> accessor" where
  "bracket_at input p =
     bracket_part (trim (slice input (int (p + 1)) (indexOf input (str '']'') (p + 1))))"

section \<open>JSON values and \<open>JSON.parse\<close>\<close>

text \<open>A value that \<open>JSON.parse\<close> returns. An object is the list of its properties in
  the order in which \<open>for ... in\<close> and \<open>JSON.stringify\<close> visit them.\<close>

datatype json =
    JNull
  | JBool bool
  | JNumber jsnumber
  | JString jstring
  | JArray "json list"
  | JObject "(jstring \<times> json) list"

datatype js_error = SyntaxError

datatype token =
    TLBrace | TRBrace | TLBracket | TRBracket | TColon | TComma
  | TString jstring | TNumber jsnumber | TTrue | TFalse | TNull

text \<open>The value of a hexadecimal digit.\<close>

definition hex_value :: "nat \<Rightarrow> nat option" where
  "hex_value c =
     (if 48 \<le> c \<and> c \<le> 57 then Some (c - 48)
      else if 65 \<le> c \<and> c \<le> 70 then Some (c - 55)
      else if 97 \<le> c \<and> c \<le> 102 then Some (c - 87)
      else None)"

text \<open>The character that a one-letter escape stands for.\<close>

definition simple_escape :: "nat \<Rightarrow> nat option" where
  "simple_escape e =
     (if e = ch CHR 0x22 then Some (ch CHR 0x22)
      else if e = ch CHR 0x5C then Some (ch CHR 0x5C)
      else if e = ch CHR ''/'' then Some (ch CHR ''/'')
      else if e = ch CHR ''b'' then Some 8
      else if e = ch CHR ''f'' then Some 12
      else if e = ch CHR ''n'' then Some 10
      else if e = ch CHR ''r'' then Some 13
      else if e = ch CHR ''t'' then Some 9
      else None)"

definition cons_string :: "nat \<Rightarrow> (jstring \<times> jstring) option \<Rightarrow> (jstring \<times> jstring) option" where
  "cons_string c r = (case r of None \<Rightarrow> None | Some (s, rest) \<Rightarrow> Some (c # s, rest))"

text \<open>An escape sequence after its backslash: the code unit it stands for and the text
  after it.\<close>

definition lex_escape :: "jstring \<Rightarrow> (nat \<times> jstring) option" where
  "lex_escape cs =
     (case cs of
        [] \<Rightarrow> None
      | e # cs' \<Rightarrow>
          if e = ch CHR ''u'' then
            (case cs' of
               h1 # h2 # h3 # h4 # cs'' \<Rightarrow>
                 (case (hex_value h1, hex_value h2, hex_value h3, hex_value h4) of
                    (Some a, Some b, Some c, Some d) \<Rightarrow>
                      Some (((a * 16 + b) * 16 + c) * 16 + d, cs'')
                  | _ \<Rightarrow> None)
             | _ \<Rightarrow> None)
          else map_option (\<lambda>x. (x, cs')) (simple_escape e))"

lemma lex_escape_rest: "lex_escape cs = Some (x, rest) \<Longrightarrow> length rest < length cs"
  by (auto simp: lex_escape_def split: list.splits if_splits option.splits)

text \<open>A string literal after its opening quote: its value and the text after its
  closing quote. A control character, an unknown escape and a missing closing quote are
  syntax errors.\<close>

function lex_string :: "jstring \<Rightarrow> (jstring \<times> jstring) option" where
  "lex_string [] = None"
| "lex_string (c # cs) =
     (if c = ch CHR 0x22 then Some ([], cs)
      else if c = ch CHR 0x5C then
        (case lex_escape cs of
           None \<Rightarrow> None
         | Some (x, rest) \<Rightarrow> cons_string x (lex_string rest))
      else if c < 32 then None
      else cons_string c (lex_string cs))"
  by pat_completeness auto
termination
  by (relation "measure length") (auto dest: lex_escape_rest)

text \<open>A number literal \<open>-? (0 | [1-9][0-9]*) (. [0-9]+)? ([eE] [+-]? [0-9]+)?\<close>: its
  value, rounded to a double, and the text after it.\<close>

definition negate :: "jsnumber \<Rightarrow> jsnumber" where
  "negate x = (case x of
       Finite v \<Rightarrow> (if v = 0 then NegZero else Finite (- v))
     | NegZero \<Rightarrow> Finite 0
     | Infinity \<Rightarrow> NegInfinity
     | NegInfinity \<Rightarrow> Infinity)"

definition decimal_value :: "nat \<Rightarrow> int \<Rightarrow> jsnumber" where
  "decimal_value m e =
     (if 0 \<le> e then round_double (m * 10 ^ nat e) 1 else round_double m (10 ^ nat (- e)))"

text \<open>The integer part: \<open>0\<close>, or digits that do not start with \<open>0\<close>.\<close>

definition lex_int :: "jstring \<Rightarrow> (jstring \<times> jstring) option" where
  "lex_int s =
     (let ip = takeWhile is_digit s in
      if ip = [] \<or> (hd ip = ch CHR ''0'' \<and> length ip \<noteq> 1) then None
      else Some (ip, dropWhile is_digit s))"

text \<open>The optional fraction: a dot and at least one digit.\<close>

definition lex_frac :: "jstring \<Rightarrow> (jstring \<times> jstring) option" where
  "lex_frac s =
     (if s \<noteq> [] \<and> hd s = ch CHR ''.'' then
        (let fp = takeWhile is_digit (tl s) in
         if fp = [] then None else Some (fp, dropWhile is_digit (tl s)))
      else Some ([], s))"

text \<open>The optional exponent: \<open>e\<close> or \<open>E\<close>, an optional sign and at least one
  digit.\<close>

definition skip_sign :: "jstring \<Rightarrow> jstring" where
  "skip_sign s = (if s \<noteq> [] \<and> (hd s = ch CHR ''-'' \<or> hd s = ch CHR ''+'') then tl s else s)"

definition lex_exp :: "jstring \<Rightarrow> (int \<times> jstring) option" where
  "lex_exp s =
     (if s \<noteq> [] \<and> (hd s = ch CHR ''e'' \<or> hd s = ch CHR ''E'') then
        (let ep = takeWhile is_digit (skip_sign (tl s)) in
         if ep = [] then None
         else Some (if tl s \<noteq> [] \<and> hd (tl s) = ch CHR ''-'' then - int (digits_value ep)
                    else int (digits_value ep),
                    dropWhile is_digit (skip_sign (tl s))))
      else Some (0, s))"

definition lex_number :: "jstring \<Rightarrow> (jsnumber \<times> jstring) option" where
  "lex_number s =
     (let neg = (s \<noteq> [] \<and> hd s = ch CHR ''-'') in
      case lex_int (if neg then tl s else s) of
        None \<Rightarrow> None
      | Some (ip, s2) \<Rightarrow>
          (case lex_frac s2 of
             None \<Rightarrow> None
           | Some (fp, s3) \<Rightarrow>
               (case lex_exp s3 of
                  None \<Rightarrow> None
                | Some (ex, s4) \<Rightarrow>
                    (let v = decimal_value (digits_value (ip @ fp)) (ex - int (length fp))
                     in Some (if neg then negate v else v, s4)))))"

definition is_json_space :: "nat \<Rightarrow> bool" where
  "is_json_space c \<longleftrightarrow> c = 32 \<or> c = 9 \<or> c = 10 \<or> c = 13"

definition cons_token :: "token \<Rightarrow> token list option \<Rightarrow> token list option" where
  "cons_token t r = map_option ((#) t) r"

lemma cons_string_length:
  "cons_string c r = Some (s, rest) \<Longrightarrow> \<exists>s'. r = Some (s', rest)"
  by (auto simp: cons_string_def split: option.splits)

lemma lex_string_rest: "lex_string cs = Some (s, rest) \<Longrightarrow> length rest < length cs"
proof (induction cs arbitrary: s rule: lex_string.induct)
  case 1
  then show ?case by simp
next
  case (2 c cs)
  consider (quote) "c = ch CHR 0x22"
    | (esc) "c \<noteq> ch CHR 0x22" "c = ch CHR 0x5C"
    | (plain) "c \<noteq> ch CHR 0x22" "c \<noteq> ch CHR 0x5C"
    by blast
  then show ?case
  proof cases
    case quote
    with "2.prems" show ?thesis by simp
  next
    case esc
    with "2.prems" obtain x r where e: "lex_escape cs = Some (x, r)"
      by (auto split: option.splits)
    with esc "2.prems" obtain s' where "lex_string r = Some (s', rest)"
      by (auto dest: cons_string_length)
    with "2.IH"(1) [OF esc(1) esc(2) e refl] have "length rest < length r"
      by blast
    with lex_escape_rest [OF e] show ?thesis by simp
  next
    case plain
    with "2.prems" have nc: "\<not> c < 32"
      by (auto split: if_splits)
    with plain "2.prems" obtain s' where "lex_string cs = Some (s', rest)"
      by (auto dest: cons_string_length)
    with "2.IH"(2) [OF plain nc] have "length rest < length cs"
      by blast
    then show ?thesis by simp
  qed
qed

lemma dropWhile_shorter: "takeWhile P xs \<noteq> [] \<Longrightarrow> length (dropWhile P xs) < length xs"
  by (cases xs) (auto simp: le_imp_less_Suc length_dropWhile_le split: if_splits)

lemma lex_int_rest: "lex_int s = Some (ip, rest) \<Longrightarrow> length rest < length s"
  by (auto simp: lex_int_def Let_def dropWhile_shorter split: if_splits)

lemma lex_frac_rest: "lex_frac s = Some (fp, rest) \<Longrightarrow> length rest \<le> length s"
  using length_dropWhile_le [of is_digit "tl s"]
  by (auto simp: lex_frac_def Let_def split: if_splits)

lemma lex_exp_rest: "lex_exp s = Some (ex, rest) \<Longrightarrow> length rest \<le> length s"
proof -
  assume a: "lex_exp s = Some (ex, rest)"
  have "length (skip_sign (tl s)) \<le> length s"
    by (simp add: skip_sign_def)
  then have "length (dropWhile is_digit (skip_sign (tl s))) \<le> length s"
    using length_dropWhile_le [of is_digit "skip_sign (tl s)"] by simp
  with a show ?thesis
    by (auto simp: lex_exp_def Let_def split: if_splits)
qed

lemma lex_number_rest:
  assumes "lex_number cs = Some (n, rest)"
  shows "length rest < length cs"
proof -
  define s1 where "s1 = (if cs \<noteq> [] \<and> hd cs = ch CHR ''-'' then tl cs else cs)"
  from assms obtain ip s2 fp s3 ex where i: "lex_int s1 = Some (ip, s2)"
    and f: "lex_frac s2 = Some (fp, s3)" and e: "lex_exp s3 = Some (ex, rest)"
    by (auto simp: lex_number_def Let_def s1_def split: option.splits)
  have "length s1 \<le> length cs"
    by (simp add: s1_def)
  with lex_int_rest [OF i] lex_frac_rest [OF f] lex_exp_rest [OF e] show ?thesis
    by simp
qed

function lex :: "jstring \<Rightarrow> token list option" where
  "lex [] = Some []"
| "lex (c # cs) =
     (if is_json_space c then lex cs
      else if c = ch CHR ''{'' then cons_token TLBrace (lex cs)
      else if c = ch CHR ''}'' then cons_token TRBrace (lex cs)
      else if c = ch CHR ''['' then cons_token TLBracket (lex cs)
      else if c = ch CHR '']'' then cons_token TRBracket (lex cs)
      else if c = ch CHR '':'' then cons_token TColon (lex cs)
      else if c = ch CHR '','' then cons_token TComma (lex cs)
      else if c = ch CHR 0x22 then
        (case lex_string cs of
           None \<Rightarrow> None
         | Some (s, rest) \<Rightarrow> cons_token (TString s) (lex rest))
      else if c = ch CHR ''-'' \<or> is_digit c then
        (case lex_number (c # cs) of
           None \<Rightarrow> None
         | Some (n, rest) \<Rightarrow> cons_token (TNumber n) (lex rest))
      else if take 4 (c # cs) = str ''true'' then cons_token TTrue (lex (drop 4 (c # cs)))
      else if take 5 (c # cs) = str ''false'' then cons_token TFalse (lex (drop 5 (c # cs)))
      else if take 4 (c # cs) = str ''null'' then cons_token TNull (lex (drop 4 (c # cs)))
      else None)"
  by pat_completeness auto
termination
  by (relation "measure length") (auto dest: lex_string_rest lex_number_rest)

text \<open>A property key that is an array index: the canonical decimal form of an integer
  below \<open>2 ^ 32 - 1\<close>. An object lists such keys first, in ascending order, and the
  other keys after them in the order of their creation.\<close>

definition array_index :: "jstring \<Rightarrow> nat option" where
  "array_index k =
     (if all_digits k \<and> (length k = 1 \<or> hd k \<noteq> ch CHR ''0'') \<and> digits_value k < 2 ^ 32 - 1
      then Some (digits_value k) else None)"

text \<open>\<open>CreateDataProperty\<close>: a key that the object has keeps its place and takes the new
  value; a new key goes to its place in the order of the properties.\<close>

fun insert_property :: "jstring \<Rightarrow> json \<Rightarrow> (jstring \<times> json) list \<Rightarrow> (jstring \<times> json) list" where
  "insert_property k v [] = [(k, v)]"
| "insert_property k v ((k', v') # ms) =
     (case (array_index k, array_index k') of
        (Some n, Some n') \<Rightarrow>
          if n < n' then (k, v) # (k', v') # ms else (k', v') # insert_property k v ms
      | (Some n, None) \<Rightarrow> (k, v) # (k', v') # ms
      | (None, _) \<Rightarrow> (k', v') # insert_property k v ms)"

definition put_property :: "(jstring \<times> json) list \<Rightarrow> jstring \<Rightarrow> json \<Rightarrow> (jstring \<times> json) list" where
  "put_property ms k v =
     (if k \<in> fst ` set ms then map (\<lambda>(k', v'). if k' = k then (k', v) else (k', v')) ms
      else insert_property k v ms)"

text \<open>The parser reads the tokens from left to right and keeps the containers that are
  open: an array with the elements read so far, an object with the properties read so far
  and the key whose value is being read.\<close>

datatype frame = FArray "json list" | FObject "(jstring \<times> json) list" jstring

datatype pstate =
    PValue "frame list"
  | PArrayFirst "frame list"
  | PObjectFirst "frame list"
  | PKey "(jstring \<times> json) list" "frame list"
  | PColon "(jstring \<times> json) list" jstring "frame list"
  | PAfterElement "json list" "frame list"
  | PAfterMember "(jstring \<times> json) list" "frame list"
  | PDone json

text \<open>A value is complete: it is the result, or it goes into the innermost open
  container.\<close>

fun complete :: "json \<Rightarrow> frame list \<Rightarrow> pstate" where
  "complete v [] = PDone v"
| "complete v (FArray vs # st) = PAfterElement (vs @ [v]) st"
| "complete v (FObject ms k # st) = PAfterMember (put_property ms k v) st"

fun value_start :: "frame list \<Rightarrow> token \<Rightarrow> pstate option" where
  "value_start st TNull = Some (complete JNull st)"
| "value_start st TTrue = Some (complete (JBool True) st)"
| "value_start st TFalse = Some (complete (JBool False) st)"
| "value_start st (TNumber n) = Some (complete (JNumber n) st)"
| "value_start st (TString s) = Some (complete (JString s) st)"
| "value_start st TLBracket = Some (PArrayFirst st)"
| "value_start st TLBrace = Some (PObjectFirst st)"
| "value_start st _ = None"

fun parse_step :: "pstate \<Rightarrow> token \<Rightarrow> pstate option" where
  "parse_step (PValue st) t = value_start st t"
| "parse_step (PArrayFirst st) t =
     (if t = TRBracket then Some (complete (JArray []) st) else value_start (FArray [] # st) t)"
| "parse_step (PObjectFirst st) t =
     (case t of
        TRBrace \<Rightarrow> Some (complete (JObject []) st)
      | TString k \<Rightarrow> Some (PColon [] k st)
      | _ \<Rightarrow> None)"
| "parse_step (PKey ms st) t = (case t of TString k \<Rightarrow> Some (PColon ms k st) | _ \<Rightarrow> None)"
| "parse_step (PColon ms k st) t = (if t = TColon then Some (PValue (FObject ms k # st)) else None)"
| "parse_step (PAfterElement vs st) t =
     (case t of
        TComma \<Rightarrow> Some (PValue (FArray vs # st))
      | TRBracket \<Rightarrow> Some (complete (JArray vs) st)
      | _ \<Rightarrow> None)"
| "parse_step (PAfterMember ms st) t =
     (case t of
        TComma \<Rightarrow> Some (PKey ms st)
      | TRBrace \<Rightarrow> Some (complete (JObject ms) st)
      | _ \<Rightarrow> None)"
| "parse_step (PDone v) t = None"

fun parse_tokens :: "pstate \<Rightarrow> token list \<Rightarrow> js_error + json" where
  "parse_tokens (PDone v) [] = Inr v"
| "parse_tokens s [] = Inl SyntaxError"
| "parse_tokens s (t # ts) =
     (case parse_step s t of None \<Rightarrow> Inl SyntaxError | Some s' \<Rightarrow> parse_tokens s' ts)"

text \<open>\<open>JSON.parse(text)\<close> (without a reviver): the value, or the SyntaxError it throws.\<close>

definition JSON_parse :: "jstring \<Rightarrow> js_error + json" where
  "JSON_parse text = (case lex text of None \<Rightarrow> Inl SyntaxError | Some ts \<Rightarrow> parse_tokens (PValue []) ts)"

section \<open>The value coercer\<close>

definition coerceValue :: "jstring \<Rightarrow> json" where
  "coerceValue raw = (case JSON_parse raw of Inr v \<Rightarrow> v | Inl e \<Rightarrow> JString raw)"

section \<open>Regular expressions\<close>

text \<open>
  The regular expressions that the program uses, with the backtracking matcher of
  \<open>RegExp.prototype.exec\<close>: an alternative or a repetition is tried in its order of
  preference, and the first way of matching the whole expression is the match. \<open>Star\<close>
  and \<open>Plus\<close> are the greedy \<open>*\<close> and \<open>+\<close> and \<open>LazyStar\<close> is \<open>*?\<close>, each over a
  character class; \<open>Opt\<close> is the greedy \<open>?\<close>; \<open>Group n\<close> is the \<open>n\<close>-th capturing
  group; \<open>Eoi\<close> is \<open>$\<close> without the multiline flag.
\<close>

datatype cclass = CSpace | CWord | CAny

datatype regex =
    Lit jstring
  | Star cclass
  | Plus cclass
  | LazyStar cclass
  | Opt regex
  | Group nat regex
  | Cat regex regex
  | Alt regex regex
  | Eoi

text \<open>The class \<open>\w\<close>: letters, digits and the underscore.\<close>

definition is_word :: "nat \<Rightarrow> bool" where
  "is_word c \<longleftrightarrow> (97 \<le> c \<and> c \<le> 122) \<or> (65 \<le> c \<and> c \<le> 90) \<or> is_digit c \<or> c = 95"

fun in_class :: "cclass \<Rightarrow> nat \<Rightarrow> bool" where
  "in_class CSpace c = is_space c"
| "in_class CWord c = is_word c"
| "in_class CAny c = True"

text \<open>The captures: for a group that took part in the match, its start and end.\<close>

type_synonym captures = "nat \<rightharpoonup> nat \<times> nat"

text \<open>\<open>try_down f lo n\<close> tries \<open>f\<close> at \<open>lo + n\<close>, \<open>lo + n - 1\<close>, \<dots>, \<open>lo\<close>, and
  \<open>try_up f lo n\<close> at \<open>lo\<close>, \<open>lo + 1\<close>, \<dots>, \<open>lo + n\<close>: the first success.\<close>

fun try_down :: "(nat \<Rightarrow> 'r option) \<Rightarrow> nat \<Rightarrow> nat \<Rightarrow> 'r option" where
  "try_down f lo 0 = f lo"
| "try_down f lo (Suc n) =
     (case f (lo + Suc n) of Some r \<Rightarrow> Some r | None \<Rightarrow> try_down f lo n)"

fun try_up :: "(nat \<Rightarrow> 'r option) \<Rightarrow> nat \<Rightarrow> nat \<Rightarrow> 'r option" where
  "try_up f lo 0 = f lo"
| "try_up f lo (Suc n) =
     (case f lo of Some r \<Rightarrow> Some r | None \<Rightarrow> try_up f (Suc lo) n)"

text \<open>The number of code units of the class at position \<open>i\<close>.\<close>

definition class_run :: "cclass \<Rightarrow> jstring \<Rightarrow> nat \<Rightarrow> nat" where
  "class_run cl s i = length (takeWhile (in_class cl) (drop i s))"

text \<open>\<open>rmatch r s i c k\<close> matches \<open>r\<close> at position \<open>i\<close> of \<open>s\<close> with the captures
  \<open>c\<close> and then runs the rest of the match \<open>k\<close>; \<open>None\<close> when no way of matching \<open>r\<close>
  lets \<open>k\<close> succeed.\<close>

primrec rmatch ::
  "regex \<Rightarrow> jstring \<Rightarrow> nat \<Rightarrow> captures \<Rightarrow> (nat \<Rightarrow> captures \<Rightarrow> 'r option) \<Rightarrow> 'r option" where
  "rmatch (Lit w) s i c k =
     (if take (length w) (drop i s) = w then k (i + length w) c else None)"
| "rmatch (Star cl) s i c k = try_down (\<lambda>j. k j c) i (class_run cl s i)"
| "rmatch (Plus cl) s i c k =
     (if class_run cl s i = 0 then None
      else try_down (\<lambda>j. k j c) (i + 1) (class_run cl s i - 1))"
| "rmatch (LazyStar cl) s i c k = try_up (\<lambda>j. k j c) i (class_run cl s i)"
| "rmatch (Opt r) s i c k =
     (case rmatch r s i c k of Some x \<Rightarrow> Some x | None \<Rightarrow> k i c)"
| "rmatch (Group n r) s i c k = rmatch r s i c (\<lambda>j c'. k j (c'(n \<mapsto> (i, j))))"
| "rmatch (Cat r1 r2) s i c k = rmatch r1 s i c (\<lambda>j c'. rmatch r2 s j c' k)"
| "rmatch (Alt r1 r2) s i c k =
     (case rmatch r1 s i c k of Some x \<Rightarrow> Some x | None \<Rightarrow> rmatch r2 s i c k)"
| "rmatch Eoi s i c k = (if i = length s then k i c else None)"

text \<open>A match: where it starts, where it ends, and its captures.\<close>

record rmatch_result =
  m_index :: nat
  m_end :: nat
  m_groups :: captures

text \<open>\<open>exec\<close> of a regular expression with the flag \<open>g\<close>: the leftmost match that
  starts at \<open>lastIndex\<close> or after it, or \<open>null\<close>. The caller takes the end of the match as
  the next \<open>lastIndex\<close>.\<close>

definition regex_exec :: "regex \<Rightarrow> jstring \<Rightarrow> nat \<Rightarrow> rmatch_result option" where
  "regex_exec r s lastIndex =
     (if length s < lastIndex then None
      else try_up
        (\<lambda>p. rmatch r s p Map.empty (\<lambda>e c. Some \<lparr>m_index = p, m_end = e, m_groups = c\<rparr>))
        lastIndex (length s - lastIndex))"

text \<open>\<open>match[n]\<close>: the text of a group, \<open>undefined\<close> for a group that took no part.\<close>

definition group_text :: "jstring \<Rightarrow> rmatch_result \<Rightarrow> nat \<Rightarrow> jstring option" where
  "group_text s m n = map_option (\<lambda>(a, b). take (b - a) (drop a s)) (m_groups m n)"

text \<open>The least number of code units that a match of an expression takes.\<close>

primrec minlen :: "regex \<Rightarrow> nat" where
  "minlen (Lit w) = length w"
| "minlen (Star cl) = 0"
| "minlen (Plus cl) = 1"
| "minlen (LazyStar cl) = 0"
| "minlen (Opt r) = 0"
| "minlen (Group n r) = minlen r"
| "minlen (Cat r1 r2) = minlen r1 + minlen r2"
| "minlen (Alt r1 r2) = min (minlen r1) (minlen r2)"
| "minlen Eoi = 0"

lemma try_down_Some: "try_down f lo n = Some x \<Longrightarrow> \<exists>m \<le> n. f (lo + m) = Some x"
proof (induction n)
  case 0
  then show ?case by simp
next
  case (Suc n)
  show ?case
  proof (cases "f (lo + Suc n)")
    case None
    with Suc obtain m where "m \<le> n" "f (lo + m) = Some x" by auto
    then show ?thesis by (intro exI [of _ m]) simp
  next
    case (Some r)
    with Suc.prems show ?thesis by (intro exI [of _ "Suc n"]) simp
  qed
qed

lemma try_up_Some: "try_up f lo n = Some x \<Longrightarrow> \<exists>m \<le> n. f (lo + m) = Some x"
proof (induction n arbitrary: lo)
  case 0
  then show ?case by simp
next
  case (Suc n)
  show ?case
  proof (cases "f lo")
    case None
    with Suc.prems have "try_up f (Suc lo) n = Some x" by simp
    with Suc.IH obtain m where "m \<le> n" "f (Suc lo + m) = Some x" by blast
    then show ?thesis by (intro exI [of _ "Suc m"]) simp
  next
    case (Some r)
    with Suc.prems show ?thesis by (intro exI [of _ 0]) simp
  qed
qed

lemma class_run_le: "i + class_run cl s i \<le> max i (length s)"
  using length_takeWhile_le [of "in_class cl" "drop i s"] by (simp add: class_run_def)

lemma rmatch_progress:
  "rmatch r s i c k = Some x \<Longrightarrow> i \<le> length s
     \<Longrightarrow> \<exists>j c'. i + minlen r \<le> j \<and> j \<le> length s \<and> k j c' = Some x"
proof (induction r arbitrary: i c k)
  case (Lit w)
  then have eq: "take (length w) (drop i s) = w" and k: "k (i + length w) c = Some x"
    by (auto split: if_splits)
  from eq have "length (take (length w) (drop i s)) = length w" by simp
  then have "i + length w \<le> length s" using Lit.prems(2) by simp
  with k show ?case by auto
next
  case (Star cl)
  then obtain m where "m \<le> class_run cl s i" "k (i + m) c = Some x"
    using try_down_Some [of "\<lambda>j. k j c" i "class_run cl s i" x] by auto
  moreover from class_run_le [of i cl s] Star.prems(2) have "i + class_run cl s i \<le> length s"
    by simp
  ultimately show ?case by (intro exI [of _ "i + m"] exI [of _ c]) simp
next
  case (Plus cl)
  then have pos: "class_run cl s i \<noteq> 0"
    and t: "try_down (\<lambda>j. k j c) (i + 1) (class_run cl s i - 1) = Some x"
    by (auto split: if_splits)
  from try_down_Some [OF t] obtain m where "m \<le> class_run cl s i - 1" "k (i + 1 + m) c = Some x"
    by auto
  moreover from class_run_le [of i cl s] Plus.prems(2) have "i + class_run cl s i \<le> length s"
    by simp
  ultimately show ?case using pos by (intro exI [of _ "i + 1 + m"] exI [of _ c]) simp
next
  case (LazyStar cl)
  then obtain m where "m \<le> class_run cl s i" "k (i + m) c = Some x"
    using try_up_Some [of "\<lambda>j. k j c" i "class_run cl s i" x] by auto
  moreover from class_run_le [of i cl s] LazyStar.prems(2) have "i + class_run cl s i \<le> length s"
    by simp
  ultimately show ?case by (intro exI [of _ "i + m"] exI [of _ c]) simp
next
  case (Opt r)
  show ?case
  proof (cases "rmatch r s i c k")
    case None
    with Opt.prems show ?thesis by (intro exI [of _ i] exI [of _ c]) simp
  next
    case (Some y)
    with Opt.prems have "rmatch r s i c k = Some x" by simp
    from Opt.IH [OF this Opt.prems(2)] obtain j c'
      where "i + minlen r \<le> j" "j \<le> length s" "k j c' = Some x"
      by blast
    then show ?thesis by (intro exI [of _ j] exI [of _ c']) simp
  qed
next
  case (Group n r)
  from Group.prems have "rmatch r s i c (\<lambda>j c'. k j (c'(n \<mapsto> (i, j)))) = Some x" by simp
  from Group.IH [OF this Group.prems(2)] obtain j c'
    where "i + minlen r \<le> j" "j \<le> length s" "k j (c'(n \<mapsto> (i, j))) = Some x"
    by blast
  then show ?case unfolding minlen.simps by blast
next
  case (Cat r1 r2)
  from Cat.prems have "rmatch r1 s i c (\<lambda>j c'. rmatch r2 s j c' k) = Some x" by simp
  from Cat.IH(1) [OF this Cat.prems(2)] obtain j c'
    where j: "i + minlen r1 \<le> j" "j \<le> length s" and r2: "rmatch r2 s j c' k = Some x"
    by blast
  from Cat.IH(2) [OF r2 j(2)] obtain j' c''
    where "j + minlen r2 \<le> j'" "j' \<le> length s" "k j' c'' = Some x"
    by blast
  with j show ?case by (intro exI [of _ j'] exI [of _ c'']) simp
next
  case (Alt r1 r2)
  show ?case
  proof (cases "rmatch r1 s i c k")
    case None
    with Alt.prems have "rmatch r2 s i c k = Some x" by simp
    from Alt.IH(2) [OF this Alt.prems(2)] obtain j c'
      where "i + minlen r2 \<le> j" "j \<le> length s" "k j c' = Some x"
      by blast
    then show ?thesis by (intro exI [of _ j] exI [of _ c']) simp
  next
    case (Some y)
    with Alt.prems have "rmatch r1 s i c k = Some x" by simp
    from Alt.IH(1) [OF this Alt.prems(2)] obtain j c'
      where "i + minlen r1 \<le> j" "j \<le> length s" "k j c' = Some x"
      by blast
    then show ?thesis by (intro exI [of _ j] exI [of _ c']) simp
  qed
next
  case Eoi
  then show ?case by (intro exI [of _ i] exI [of _ c]) (auto split: if_splits)
qed

lemma regex_exec_bounds:
  assumes "regex_exec r s lastIndex = Some m"
  shows "lastIndex \<le> m_index m" and "m_index m + minlen r \<le> m_end m" and "m_end m \<le> length s"
proof -
  from assms have le: "lastIndex \<le> length s"
    by (auto simp: regex_exec_def split: if_splits)
  with assms obtain d where d: "d \<le> length s - lastIndex"
    and r: "rmatch r s (lastIndex + d) Map.empty
          (\<lambda>e c. Some \<lparr>m_index = lastIndex + d, m_end = e, m_groups = c\<rparr>) = Some m"
    using try_up_Some [of _ lastIndex "length s - lastIndex" m]
    by (auto simp: regex_exec_def split: if_splits)
  from d le have "lastIndex + d \<le> length s" by simp
  from rmatch_progress [OF r this] obtain j c'
    where "lastIndex + d + minlen r \<le> j" "j \<le> length s"
      "m = \<lparr>m_index = lastIndex + d, m_end = j, m_groups = c'\<rparr>"
    by auto
  then show "lastIndex \<le> m_index m" and "m_index m + minlen r \<le> m_end m"
    and "m_end m \<le> length s"
    by simp_all
qed

section \<open>The embedded-object locator\<close>

text \<open>
  \<open>/(?:export\s+)?(?:const|let|var\s+)?(\w+)?\s*=\s*({[\s\S]*?})(?:;|$)|({[\s\S]*?})(?:;|$)/g\<close>
\<close>

definition object_literal :: regex where
  "object_literal = Cat (Lit (str ''{'')) (Cat (LazyStar CAny) (Lit (str ''}'')))"

definition terminator :: regex where
  "terminator = Alt (Lit (str '';'')) Eoi"

definition variable_regex :: regex where
  "variable_regex =
     Alt
       (Cat (Opt (Cat (Lit (str ''export'')) (Plus CSpace)))
       (Cat (Opt (Alt (Lit (str ''const'')) (Alt (Lit (str ''let''))
                   (Cat (Lit (str ''var'')) (Plus CSpace)))))
       (Cat (Opt (Group 1 (Plus CWord)))
       (Cat (Star CSpace)
       (Cat (Lit (str ''=''))
       (Cat (Star CSpace)
       (Cat (Group 2 object_literal) terminator)))))))
       (Cat (Group 3 object_literal) terminator)"

text \<open>An element of the array that \<open>findJsonVariables\<close> returns.\<close>

record json_variable =
  name :: jstring
  json :: jstring
  jsonStart :: int
  jsonEnd :: int

text \<open>The decimal digits of a number, as a template literal prints it.\<close>

fun to_decimal :: "nat \<Rightarrow> jstring" where
  "to_decimal n = (if n < 10 then [48 + n] else to_decimal (n div 10) @ [48 + n mod 10])"

declare to_decimal.simps [simp del]

text \<open>\<open>a || b\<close> on strings that may be \<open>undefined\<close>: \<open>a\<close> unless it is \<open>undefined\<close>
  or empty.\<close>

definition or_else :: "jstring option \<Rightarrow> jstring option \<Rightarrow> jstring option" where
  "or_else a b = (case a of None \<Rightarrow> b | Some t \<Rightarrow> if t = [] then b else Some t)"

text \<open>
  The body of the loop for the match \<open>m\<close>. \<open>parseTree\<close> is the function of the library
  \<open>jsonc-parser\<close>: it returns a tree (\<open>Inr\<close>) or throws (\<open>Inl\<close>), and the \<open>catch\<close>
  with the empty block drops what it throws. A \<open>json\<close> that is \<open>undefined\<close> cannot be
  scanned, which throws inside the \<open>try\<close> as well.
\<close>

definition findJsonVariables_body ::
  "(jstring \<Rightarrow> 'e + 't) \<Rightarrow> jstring \<Rightarrow> rmatch_result \<Rightarrow> json_variable list \<Rightarrow> json_variable list" where
  "findJsonVariables_body parseTree text m variables =
     (case (or_else (group_text text m 1)
              (Some (str ''Object_'' @ to_decimal (length variables + 1))),
            or_else (group_text text m 2) (group_text text m 3)) of
        (Some nm, Some js) \<Rightarrow>
          (case parseTree js of
             Inl e \<Rightarrow> variables
           | Inr t \<Rightarrow>
               let match0 = take (m_end m - m_index m) (drop (m_index m) text);
                   start = int (m_index m) + indexOf match0 js 0
               in variables @
                  [\<lparr>name = nm, json = js, jsonStart = start,
                    jsonEnd = start + int (length js)\<rparr>])
      | _ \<Rightarrow> variables)"

lemma minlen_variable_regex: "minlen variable_regex = 2"
  by (simp add: variable_regex_def object_literal_def terminator_def str_def)

text \<open>The loop \<open>while ((match = regex.exec(text)) !== null)\<close>; \<open>lastIndex\<close> is the
  property of the regular expression that \<open>exec\<close> reads and sets.\<close>

function findJsonVariables_loop ::
  "(jstring \<Rightarrow> 'e + 't) \<Rightarrow> jstring \<Rightarrow> nat \<Rightarrow> json_variable list \<Rightarrow> json_variable list" where
  "findJsonVariables_loop parseTree text lastIndex variables =
     (case regex_exec variable_regex text lastIndex of
        None \<Rightarrow> variables
      | Some m \<Rightarrow>
          findJsonVariables_loop parseTree text (m_end m)
            (findJsonVariables_body parseTree text m variables))"
  by pat_completeness auto
termination
proof (relation "measure (\<lambda>(parseTree, text, lastIndex, variables). length text - lastIndex)")
  show "wf (measure (\<lambda>(parseTree :: jstring \<Rightarrow> 'e + 't, text, lastIndex, variables :: json_variable list).
      length text - lastIndex))"
    by simp
next
  fix parseTree :: "jstring \<Rightarrow> 'e + 't" and doc lastIndex
    and variables :: "json_variable list" and m
  assume "regex_exec variable_regex doc lastIndex = Some m"
  from regex_exec_bounds [OF this]
  have "lastIndex < m_end m" "m_end m \<le> length doc"
    by (simp_all add: minlen_variable_regex)
  then show "((parseTree, doc, m_end m, findJsonVariables_body parseTree doc m variables),
       (parseTree, doc, lastIndex, variables))
      \<in> measure (\<lambda>(parseTree, text, lastIndex, variables). length text - lastIndex)"
    by simp
qed

declare findJsonVariables_loop.simps [simp del]

definition findJsonVariables :: "(jstring \<Rightarrow> 'e + 't) \<Rightarrow> jstring \<Rightarrow> json_variable list" where
  "findJsonVariables parseTree text = findJsonVariables_loop parseTree text 0 []"

section \<open>The structural editor\<close>

text \<open>
  Modelled from the spec: the functions \<open>modify\<close>, \<open>applyEdits\<close> and \<open>parseTree\<close> are
  imported from the library \<open>jsonc-parser\<close>, whose code is not among the sources. The spec
  describes them in its sections 3 (Edit, FormattingOptions), 4.4 (Structural Editor),
  4.5 (the structural parse that validates a candidate) and 4.6 (Edit Applier); the
  definitions of this section follow those descriptions.
\<close>

subsection \<open>The concrete syntax tree\<close>

text \<open>
  Modelled from the spec: a document is parsed "into a concrete syntax tree that retains
  node offsets/lengths" (section 4.4). A node is a scalar, an array with its elements, or
  an object with its members; comments (\<open>//\<close> to the end of the line, \<open>/* */\<close>) are
  skipped between the tokens and a trailing comma is accepted, so that they survive
  editing.
\<close>

datatype cst =
    Leaf nat nat
  | Arr nat nat "cst list"
  | Obj nat nat "(jstring \<times> cst) list"

fun node_offset :: "cst \<Rightarrow> nat" where
  "node_offset (Leaf off len) = off"
| "node_offset (Arr off len es) = off"
| "node_offset (Obj off len ms) = off"

fun node_length :: "cst \<Rightarrow> nat" where
  "node_length (Leaf off len) = len"
| "node_length (Arr off len es) = len"
| "node_length (Obj off len ms) = len"

text \<open>Modelled from the spec: a block comment of a JSON-with-comments document, after its
  \<open>/*\<close>; the result is the text after its \<open>*/\<close>.\<close>

fun skip_block :: "jstring \<Rightarrow> jstring option" where
  "skip_block (a # b # r) =
     (if a = ch CHR ''*'' \<and> b = ch CHR ''/'' then Some r else skip_block (b # r))"
| "skip_block _ = None"

text \<open>Modelled from the spec: a comment of a JSON-with-comments document, after its first
  \<open>/\<close>; the result is the text after the comment.\<close>

definition skip_comment :: "jstring \<Rightarrow> jstring option" where
  "skip_comment cs =
     (case cs of
        [] \<Rightarrow> None
      | c # r \<Rightarrow>
          if c = ch CHR ''/'' then Some (dropWhile (\<lambda>x. x \<noteq> 10 \<and> x \<noteq> 13) r)
          else if c = ch CHR ''*'' then skip_block r
          else None)"

lemma skip_block_rest: "skip_block cs = Some rest \<Longrightarrow> length rest < length cs"
  by (induction cs arbitrary: rest rule: skip_block.induct) (auto split: if_splits)

lemma skip_comment_rest: "skip_comment cs = Some rest \<Longrightarrow> length rest \<le> length cs"
  using length_dropWhile_le [of "\<lambda>x. x \<noteq> 10 \<and> x \<noteq> 13" "tl cs"]
  by (auto simp: skip_comment_def split: list.splits if_splits dest!: skip_block_rest)

text \<open>Modelled from the spec: a token with its offset and its length, from which the
  nodes take theirs.\<close>

type_synonym ptoken = "token \<times> nat \<times> nat"

definition cons_ptoken :: "ptoken \<Rightarrow> ptoken list option \<Rightarrow> ptoken list option" where
  "cons_ptoken t r = map_option ((#) t) r"

text \<open>Modelled from the spec: the tokens of a JSON-with-comments document from the offset
  \<open>off\<close>, where the text \<open>cs\<close> starts.\<close>

function lexc :: "jstring \<Rightarrow> nat \<Rightarrow> ptoken list option" where
  "lexc [] off = Some []"
| "lexc (c # cs) off =
     (if is_json_space c then lexc cs (off + 1)
      else if c = ch CHR ''/'' then
        (case skip_comment cs of
           None \<Rightarrow> None
         | Some rest \<Rightarrow> lexc rest (off + (length (c # cs) - length rest)))
      else if c = ch CHR ''{'' then cons_ptoken (TLBrace, off, 1) (lexc cs (off + 1))
      else if c = ch CHR ''}'' then cons_ptoken (TRBrace, off, 1) (lexc cs (off + 1))
      else if c = ch CHR ''['' then cons_ptoken (TLBracket, off, 1) (lexc cs (off + 1))
      else if c = ch CHR '']'' then cons_ptoken (TRBracket, off, 1) (lexc cs (off + 1))
      else if c = ch CHR '':'' then cons_ptoken (TColon, off, 1) (lexc cs (off + 1))
      else if c = ch CHR '','' then cons_ptoken (TComma, off, 1) (lexc cs (off + 1))
      else if c = ch CHR 0x22 then
        (case lex_string cs of
           None \<Rightarrow> None
         | Some (s, rest) \<Rightarrow>
             cons_ptoken (TString s, off, length (c # cs) - length rest)
               (lexc rest (off + (length (c # cs) - length rest))))
      else if c = ch CHR ''-'' \<or> is_digit c then
        (case lex_number (c # cs) of
           None \<Rightarrow> None
         | Some (n, rest) \<Rightarrow>
             cons_ptoken (TNumber n, off, length (c # cs) - length rest)
               (lexc rest (off + (length (c # cs) - length rest))))
      else if take 4 (c # cs) = str ''true'' then
        cons_ptoken (TTrue, off, 4) (lexc (drop 4 (c # cs)) (off + 4))
      else if take 5 (c # cs) = str ''false'' then
        cons_ptoken (TFalse, off, 5) (lexc (drop 5 (c # cs)) (off + 5))
      else if take 4 (c # cs) = str ''null'' then
        cons_ptoken (TNull, off, 4) (lexc (drop 4 (c # cs)) (off + 4))
      else None)"
  by pat_completeness auto
termination
  by (relation "measure (\<lambda>(cs, off). length cs)")
     (auto dest: lex_string_rest lex_number_rest skip_comment_rest simp: le_imp_less_Suc)

text \<open>Modelled from the spec: the parser of the syntax tree keeps the containers that are open: where each one starts and what it
  holds so far.\<close>

datatype cframe = CArr nat "cst list" | CObj nat "(jstring \<times> cst) list" jstring

datatype cstate =
    CValue "cframe list"
  | CArrayFirst nat "cframe list"
  | CObjectFirst nat "cframe list"
  | CElement nat "cst list" "cframe list"
  | CKey nat "(jstring \<times> cst) list" "cframe list"
  | CColon nat "(jstring \<times> cst) list" jstring "cframe list"
  | CAfterElement nat "cst list" "cframe list"
  | CAfterMember nat "(jstring \<times> cst) list" "cframe list"
  | CDone cst

fun ccomplete :: "cst \<Rightarrow> cframe list \<Rightarrow> cstate" where
  "ccomplete v [] = CDone v"
| "ccomplete v (CArr start es # st) = CAfterElement start (es @ [v]) st"
| "ccomplete v (CObj start ms k # st) = CAfterMember start (ms @ [(k, v)]) st"

fun cvalue_start :: "cframe list \<Rightarrow> ptoken \<Rightarrow> cstate option" where
  "cvalue_start st (TNull, off, len) = Some (ccomplete (Leaf off len) st)"
| "cvalue_start st (TTrue, off, len) = Some (ccomplete (Leaf off len) st)"
| "cvalue_start st (TFalse, off, len) = Some (ccomplete (Leaf off len) st)"
| "cvalue_start st (TNumber n, off, len) = Some (ccomplete (Leaf off len) st)"
| "cvalue_start st (TString s, off, len) = Some (ccomplete (Leaf off len) st)"
| "cvalue_start st (TLBracket, off, len) = Some (CArrayFirst off st)"
| "cvalue_start st (TLBrace, off, len) = Some (CObjectFirst off st)"
| "cvalue_start st _ = None"

text \<open>Modelled from the spec: trailing commas are accepted. After a comma in an array (\<open>CElement\<close>) or in an object (\<open>CKey\<close>) the container
  may close: the comma was a trailing one.\<close>

fun cparse_step :: "cstate \<Rightarrow> ptoken \<Rightarrow> cstate option" where
  "cparse_step (CValue st) t = cvalue_start st t"
| "cparse_step (CArrayFirst start st) (tok, off, len) =
     (if tok = TRBracket then Some (ccomplete (Arr start (off + 1 - start) []) st)
      else cvalue_start (CArr start [] # st) (tok, off, len))"
| "cparse_step (CElement start es st) (tok, off, len) =
     (if tok = TRBracket then Some (ccomplete (Arr start (off + 1 - start) es) st)
      else cvalue_start (CArr start es # st) (tok, off, len))"
| "cparse_step (CObjectFirst start st) (tok, off, len) =
     (case tok of
        TRBrace \<Rightarrow> Some (ccomplete (Obj start (off + 1 - start) []) st)
      | TString k \<Rightarrow> Some (CColon start [] k st)
      | _ \<Rightarrow> None)"
| "cparse_step (CKey start ms st) (tok, off, len) =
     (case tok of
        TRBrace \<Rightarrow> Some (ccomplete (Obj start (off + 1 - start) ms) st)
      | TString k \<Rightarrow> Some (CColon start ms k st)
      | _ \<Rightarrow> None)"
| "cparse_step (CColon start ms k st) (tok, off, len) =
     (if tok = TColon then Some (CValue (CObj start ms k # st)) else None)"
| "cparse_step (CAfterElement start es st) (tok, off, len) =
     (case tok of
        TComma \<Rightarrow> Some (CElement start es st)
      | TRBracket \<Rightarrow> Some (ccomplete (Arr start (off + 1 - start) es) st)
      | _ \<Rightarrow> None)"
| "cparse_step (CAfterMember start ms st) (tok, off, len) =
     (case tok of
        TComma \<Rightarrow> Some (CKey start ms st)
      | TRBrace \<Rightarrow> Some (ccomplete (Obj start (off + 1 - start) ms) st)
      | _ \<Rightarrow> None)"
| "cparse_step (CDone v) t = None"

fun cparse_tokens :: "cstate \<Rightarrow> ptoken list \<Rightarrow> cst option" where
  "cparse_tokens (CDone v) [] = Some v"
| "cparse_tokens s [] = None"
| "cparse_tokens s (t # ts) =
     (case cparse_step s t of None \<Rightarrow> None | Some s' \<Rightarrow> cparse_tokens s' ts)"

text \<open>Modelled from the spec: the syntax tree of a JSON-with-comments document, or
  \<open>None\<close> for a text that is none.\<close>

definition parse_document :: "jstring \<Rightarrow> cst option" where
  "parse_document text =
     (case lexc text 0 of None \<Rightarrow> None | Some ts \<Rightarrow> cparse_tokens (CValue []) ts)"

subsection \<open>Serialization\<close>

text \<open>
  Modelled from the spec: "Serialization of the new value and any synthesized ancestor
  containers uses \<open>fmt\<close> (indent width/char)" (section 4.4). The text of a value is the
  one that \<open>JSON.stringify\<close> gives with that indentation, starting at a nesting level.
\<close>

record FormattingOptions =
  useSpaces :: bool
  indentWidth :: nat

definition indentation :: "FormattingOptions \<Rightarrow> nat \<Rightarrow> jstring" where
  "indentation fmt level =
     concat (replicate level (if useSpaces fmt then replicate (indentWidth fmt) 32 else [9]))"

definition newline :: "FormattingOptions \<Rightarrow> nat \<Rightarrow> jstring" where
  "newline fmt level = 10 # indentation fmt level"

text \<open>Modelled from the spec: the serialization of a string, as \<open>JSON.stringify\<close> quotes
  it. First the lower-case hexadecimal digit of a number below 16.\<close>

definition hex_digit :: "nat \<Rightarrow> nat" where
  "hex_digit d = (if d < 10 then 48 + d else 87 + d)"

definition unicode_escape :: "nat \<Rightarrow> jstring" where
  "unicode_escape c =
     [ch CHR 0x5C, ch CHR ''u'', hex_digit (c div 4096 mod 16), hex_digit (c div 256 mod 16),
      hex_digit (c div 16 mod 16), hex_digit (c mod 16)]"

definition is_high_surrogate :: "nat \<Rightarrow> bool" where
  "is_high_surrogate c \<longleftrightarrow> 55296 \<le> c \<and> c \<le> 56319"

definition is_low_surrogate :: "nat \<Rightarrow> bool" where
  "is_low_surrogate c \<longleftrightarrow> 56320 \<le> c \<and> c \<le> 57343"

definition quote_unit :: "nat \<Rightarrow> jstring" where
  "quote_unit c =
     (if c = ch CHR 0x22 then [ch CHR 0x5C, ch CHR 0x22]
      else if c = ch CHR 0x5C then [ch CHR 0x5C, ch CHR 0x5C]
      else if c = 8 then [ch CHR 0x5C, ch CHR ''b'']
      else if c = 12 then [ch CHR 0x5C, ch CHR ''f'']
      else if c = 10 then [ch CHR 0x5C, ch CHR ''n'']
      else if c = 13 then [ch CHR 0x5C, ch CHR ''r'']
      else if c = 9 then [ch CHR 0x5C, ch CHR ''t'']
      else if c < 32 \<or> is_high_surrogate c \<or> is_low_surrogate c then unicode_escape c
      else [c])"

text \<open>Modelled from the spec: the characters of a serialized string; a surrogate pair stays as it is, a lone
  surrogate is escaped.\<close>

fun quote_units :: "jstring \<Rightarrow> jstring" where
  "quote_units [] = []"
| "quote_units [c] = quote_unit c"
| "quote_units (c # d # cs) =
     (if is_high_surrogate c \<and> is_low_surrogate d then c # d # quote_units cs
      else quote_unit c @ quote_units (d # cs))"

definition quote :: "jstring \<Rightarrow> jstring" where
  "quote s = ch CHR 0x22 # quote_units s @ [ch CHR 0x22]"

text \<open>Modelled from the spec: the serialization of a number, which is
  \<open>Number::toString\<close>. For a positive double \<open>x\<close>: the digits \<open>s\<close>, as few as
  possible, and the exponent \<open>n\<close> with \<open>s * 10 ^ (n - k)\<close> a number that is read back as
  \<open>x\<close> (\<open>k\<close> is the number of digits of \<open>s\<close>).\<close>

definition scaled_double :: "nat \<Rightarrow> int \<Rightarrow> jsnumber" where
  "scaled_double s e = (if 0 \<le> e then round_double (s * 10 ^ nat e) 1 else round_double s (10 ^ nat (- e)))"

definition scaled_value :: "nat \<Rightarrow> int \<Rightarrow> rat" where
  "scaled_value s e = (if 0 \<le> e then of_nat s * 10 ^ nat e else of_nat s / 10 ^ nat (- e))"

definition decimal_exponent :: "rat \<Rightarrow> int" where
  "decimal_exponent x =
     (if 1 \<le> x then int (length (to_decimal (nat \<lfloor>x\<rfloor>)))
      else 1 - int (length (to_decimal (nat (\<lceil>1 / x\<rceil> - 1)))))"

text \<open>Modelled from the spec: the candidates with \<open>k\<close> digits for the serialization of a
  number: the two numbers of \<open>k\<close> digits around \<open>x\<close>, those
  of them that are read back as \<open>x\<close>, the closer one first (the even one of two that are
  equally close).\<close>

definition digit_candidates :: "rat \<Rightarrow> int \<Rightarrow> nat \<Rightarrow> nat list" where
  "digit_candidates x n k =
     (let e = n - int k;
          lo = nat \<lfloor>(if 0 \<le> e then x / 10 ^ nat e else x * 10 ^ nat (- e))\<rfloor>;
          hi = lo + 1;
          dl = \<bar>scaled_value lo e - x\<bar>;
          dh = \<bar>scaled_value hi e - x\<bar>;
          ordered = (if dl < dh \<or> (dl = dh \<and> even lo) then [lo, hi] else [hi, lo])
      in filter (\<lambda>s. scaled_double s e = Finite x) ordered)"

text \<open>Modelled from the spec: the first candidate with the fewest digits, from \<open>k\<close> digits on; 17 digits are
  enough for every double.\<close>

function search_digits :: "rat \<Rightarrow> int \<Rightarrow> nat \<Rightarrow> nat \<times> nat" where
  "search_digits x n k =
     (case digit_candidates x n k of
        s # _ \<Rightarrow> (s, k)
      | [] \<Rightarrow> if 17 \<le> k then (nat \<lfloor>x\<rfloor>, k) else search_digits x n (k + 1))"
  by pat_completeness auto
termination
  by (relation "measure (\<lambda>(x, n, k). 17 - k)") auto

declare search_digits.simps [simp del]

definition shortest_digits :: "rat \<Rightarrow> nat \<times> int" where
  "shortest_digits x =
     (let n = decimal_exponent x; (s, k) = search_digits x n 1
      in if s = 10 ^ k then (s div 10, n + 1) else (s, n))"

definition positive_to_string :: "rat \<Rightarrow> jstring" where
  "positive_to_string x =
     (let (s, n) = shortest_digits x;
          ds = to_decimal s;
          k = int (length ds)
      in if k \<le> n \<and> n \<le> 21 then ds @ replicate (nat (n - k)) (ch CHR ''0'')
         else if 0 < n \<and> n \<le> 21 then take (nat n) ds @ str ''.'' @ drop (nat n) ds
         else if - 6 < n \<and> n \<le> 0 then str ''0.'' @ replicate (nat (- n)) (ch CHR ''0'') @ ds
         else
           (if k = 1 then ds else hd ds # str ''.'' @ tl ds)
           @ str ''e'' @ (if 0 \<le> n - 1 then str ''+'' else str ''-'')
           @ to_decimal (nat \<bar>n - 1\<bar>))"

text \<open>Modelled from the spec: the serialization of a number as \<open>JSON.stringify\<close> gives
  it, \<open>null\<close> for an infinity.\<close>

definition number_to_string :: "jsnumber \<Rightarrow> jstring" where
  "number_to_string x =
     (case x of
        Finite v \<Rightarrow>
          if v = 0 then str ''0''
          else if v < 0 then ch CHR ''-'' # positive_to_string (- v)
          else positive_to_string v
      | NegZero \<Rightarrow> str ''0''
      | Infinity \<Rightarrow> str ''null''
      | NegInfinity \<Rightarrow> str ''null'')"

text \<open>Modelled from the spec: the serialization of a value. The elements of a container
  are each on their own line at the level \<open>level\<close>, with
  commas between them.\<close>

fun separated :: "FormattingOptions \<Rightarrow> nat \<Rightarrow> jstring list \<Rightarrow> jstring" where
  "separated fmt level [] = []"
| "separated fmt level [x] = newline fmt level @ x"
| "separated fmt level (x # xs) = newline fmt level @ x @ str '','' @ separated fmt level xs"

fun serialize :: "FormattingOptions \<Rightarrow> nat \<Rightarrow> json \<Rightarrow> jstring"
  and serialize_member :: "FormattingOptions \<Rightarrow> nat \<Rightarrow> jstring \<times> json \<Rightarrow> jstring" where
  "serialize fmt level JNull = str ''null''"
| "serialize fmt level (JBool b) = (if b then str ''true'' else str ''false'')"
| "serialize fmt level (JNumber x) = number_to_string x"
| "serialize fmt level (JString s) = quote s"
| "serialize fmt level (JArray vs) =
     (if vs = [] then str ''[]''
      else str ''['' @ separated fmt (level + 1) (map (serialize fmt (level + 1)) vs)
           @ newline fmt level @ str '']'')"
| "serialize fmt level (JObject ms) =
     (if ms = [] then str ''{}''
      else str ''{'' @ separated fmt (level + 1) (map (serialize_member fmt (level + 1)) ms)
           @ newline fmt level @ str ''}'')"
| "serialize_member fmt level (k, v) = quote k @ str '': '' @ serialize fmt level v"

subsection \<open>Edits\<close>

text \<open>
  Modelled from the spec: an Edit (section 3) replaces \<open>e_length\<close> code units of the
  original text at \<open>e_offset\<close> by \<open>e_content\<close>.
\<close>

record edit =
  e_offset :: nat
  e_length :: nat
  e_content :: jstring

text \<open>
  Modelled from the spec: the Edit Applier (section 4.6). Each edit's range of the
  original text is replaced by its content, all offsets read against the original text: the edits are applied in
  descending order of their offsets.
\<close>

definition apply_edit :: "jstring \<Rightarrow> edit \<Rightarrow> jstring" where
  "apply_edit text e = take (e_offset e) text @ e_content e @ drop (e_offset e + e_length e) text"

definition applyEdits :: "jstring \<Rightarrow> edit list \<Rightarrow> jstring" where
  "applyEdits text edits = foldl apply_edit text (rev (sort_key e_offset edits))"

subsection \<open>Computing the edits\<close>

text \<open>
  Modelled from the spec: the failures of the edit computation (section 4.4). A text that
  is no JSON-with-comments document is a \<open>MalformedDocumentError\<close>. The spec leaves open
  what a path does that leads through a node of the wrong kind (its section 9: "behavior
  when a path addresses through a scalar \<dots> is unspecified") and gives no meaning to the
  empty path; the model computes no edits for them.
\<close>

datatype edit_error = MalformedDocumentError | UnspecifiedPath

text \<open>
  Modelled from the spec: "containers are synthesized: a key accessor implies creating an
  object; an index accessor implies creating/extending an array".
\<close>

fun synthesize :: "accessor list \<Rightarrow> json \<Rightarrow> json" where
  "synthesize [] v = v"
| "synthesize (Key k # rest) v = JObject [(k, synthesize rest v)]"
| "synthesize (Index i # rest) v = JArray [synthesize rest v]"

text \<open>Modelled from the spec: the position in an array that an index accessor stands for; \<open>None\<close> for a number that is
  no position of any array.\<close>

definition index_position :: "jsnumber \<Rightarrow> nat option" where
  "index_position i =
     (case i of
        Finite q \<Rightarrow> if 0 \<le> q \<and> q = of_int \<lfloor>q\<rfloor> then Some (nat \<lfloor>q\<rfloor>) else None
      | _ \<Rightarrow> None)"

text \<open>Modelled from the spec: "the existing node's text range is replaced with the
  serialized value".\<close>

definition replace_node :: "cst \<Rightarrow> jstring \<Rightarrow> edit" where
  "replace_node node content =
     \<lparr>e_offset = node_offset node, e_length = node_length node, e_content = content\<rparr>"

text \<open>
  Modelled from the spec: a new member or element, on a line of its own with the
  indentation of \<open>fmt\<close>. The new text \<open>item\<close> goes into a container that starts at \<open>off\<close> and is at the level
  \<open>level\<close>: after the last of the \<open>children\<close>, behind a comma, or, in an empty container,
  after its opening bracket; on a line of its own.
\<close>

definition insert_item :: "FormattingOptions \<Rightarrow> nat \<Rightarrow> nat \<Rightarrow> cst list \<Rightarrow> jstring \<Rightarrow> edit" where
  "insert_item fmt level off children item =
     (if children = [] then
        \<lparr>e_offset = off + 1, e_length = 0,
         e_content = newline fmt (level + 1) @ item @ newline fmt level\<rparr>
      else
        \<lparr>e_offset = node_offset (last children) + node_length (last children), e_length = 0,
         e_content = str '','' @ newline fmt (level + 1) @ item\<rparr>)"

text \<open>
  Modelled from the spec: the walk along the path, one accessor at a time. An accessor
  that resolves to a child leads on, and the last one has the child's text replaced by the
  serialized value. A key that the object does not have becomes a new member, and an index
  at or beyond the length of the array a new last element ("append-or-replace semantics
  only"), holding the value inside the containers synthesized for the rest of the path.
  A key resolves to the first member of that name.
\<close>

fun walk :: "FormattingOptions \<Rightarrow> nat \<Rightarrow> cst \<Rightarrow> accessor list \<Rightarrow> json \<Rightarrow> edit_error + edit list" where
  "walk fmt level node [] v = Inl UnspecifiedPath"
| "walk fmt level (Obj off len ms) (Key k # rest) v =
     (case map_of ms k of
        Some child \<Rightarrow>
          if rest = [] then Inr [replace_node child (serialize fmt (level + 1) v)]
          else walk fmt (level + 1) child rest v
      | None \<Rightarrow>
          Inr [insert_item fmt level off (map snd ms)
                 (serialize_member fmt (level + 1) (k, synthesize rest v))])"
| "walk fmt level (Arr off len es) (Index i # rest) v =
     (case index_position i of
        Some n \<Rightarrow>
          if n < length es then
            (if rest = [] then Inr [replace_node (es ! n) (serialize fmt (level + 1) v)]
             else walk fmt (level + 1) (es ! n) rest v)
          else
            Inr [insert_item fmt level off es (serialize fmt (level + 1) (synthesize rest v))]
      | None \<Rightarrow>
          (if i = Infinity then
             Inr [insert_item fmt level off es (serialize fmt (level + 1) (synthesize rest v))]
           else Inl UnspecifiedPath))"
| "walk fmt level node (a # rest) v = Inl UnspecifiedPath"

text \<open>Modelled from the spec: \<open>computeEdits\<close> (section 4.4), which the code calls as
  \<open>modify(text, path, value, { formattingOptions })\<close>: the document is parsed, and a
  text that does not parse is a \<open>MalformedDocumentError\<close>; then the walk.\<close>

definition modify ::
  "jstring \<Rightarrow> accessor list \<Rightarrow> json \<Rightarrow> FormattingOptions \<Rightarrow> edit_error + edit list" where
  "modify text path v fmt =
     (case parse_document text of
        None \<Rightarrow> Inl MalformedDocumentError
      | Some tree \<Rightarrow> walk fmt 0 tree path v)"

text \<open>
  Modelled from the spec: the structural parse that validates a candidate (section 4.5),
  which the code calls as \<open>parseTree\<close>;
  a text that does not parse makes it throw.
\<close>

definition parseTree :: "jstring \<Rightarrow> edit_error + cst" where
  "parseTree text =
     (case parse_document text of None \<Rightarrow> Inl MalformedDocumentError | Some tree \<Rightarrow> Inr tree)"

text \<open>
  A validation call that cannot throw: it returns what the structural parse gives, a tree or
  nothing. The function that jsonc-parser exports as \<open>parseTree\<close> is of this kind: it is
  documented as fault tolerant, returns a tree or \<open>undefined\<close>, and tells what is wrong
  only through an array that the caller may pass, which \<open>findJsonVariables\<close> does not.
\<close>

definition tolerant_parseTree :: "jstring \<Rightarrow> edit_error + cst option" where
  "tolerant_parseTree text = Inr (parse_document text)"

subsection \<open>The path locator\<close>



section \<open>The command\<close>

text \<open>
  The part of \<open>activate\<close> that makes the new text of the document, once the path and the
  value are there: \<open>modify\<close> in the \<open>try\<close> (an exception ends the command with a message
  and without a change), then \<open>applyEdits\<close>.
\<close>

definition edit_text ::
  "FormattingOptions \<Rightarrow> jstring \<Rightarrow> accessor list \<Rightarrow> json \<Rightarrow> edit_error + jstring" where
  "edit_text fmt text path v =
     (case modify text path v fmt of
        Inl e \<Rightarrow> Inl e
      | Inr edits \<Rightarrow> Inr (applyEdits text edits))"

text \<open>For a JSON document: the whole text, and \<open>{}\<close> for a text that is empty when
  trimmed.\<close>

definition activate_document ::
  "FormattingOptions \<Rightarrow> jstring \<Rightarrow> accessor list \<Rightarrow> json \<Rightarrow> edit_error + jstring" where
  "activate_document fmt originalText path v =
     edit_text fmt (if length (trim originalText) = 0 then str ''{}'' else originalText) path v"

text \<open>For a variable selected in a JavaScript or TypeScript file: the text of its object,
  put back between the text before it and the text after it.\<close>

definition activate_variable ::
  "FormattingOptions \<Rightarrow> jstring \<Rightarrow> json_variable \<Rightarrow> accessor list \<Rightarrow> json \<Rightarrow> edit_error + jstring" where
  "activate_variable fmt originalText selectedVar path v =
     (let text = json selectedVar;
          prefix = slice originalText 0 (jsonStart selectedVar);
          suffix = slice originalText (jsonEnd selectedVar) (int (length originalText))
      in case edit_text fmt text path v of
           Inl e \<Rightarrow> Inl e
         | Inr newText \<Rightarrow> Inr (prefix @ newText @ suffix))"

section \<open>Evaluation\<close>

text \<open>The equations that evaluate the path parser on a literal.\<close>

lemmas parsePath_eval =
  parsePath_def parsePath_loop.simps parsePath_body_def str_def indexOf_def Let_def
  scan_bare.simps trim_def slice_def slice_index_def bracket_part_def all_digits_def
  is_digit_def is_space_def startsWith_def endsWith_def Number_of_digits_def
  digits_value_def round_double_def

text \<open>The equations that evaluate \<open>JSON.parse\<close> on a literal.\<close>

lemmas JSON_eval =
  coerceValue_def JSON_parse_def str_def is_json_space_def is_digit_def cons_token_def
  cons_string_def lex_number_def lex_int_def lex_frac_def lex_exp_def skip_sign_def
  decimal_value_def digits_value_def round_double_def negate_def Let_def lex_escape_def
  simple_escape_def hex_value_def put_property_def array_index_def all_digits_def


text \<open>The equations that evaluate the locator on a literal.\<close>

lemmas regex_eval =
  findJsonVariables_def findJsonVariables_loop.simps findJsonVariables_body_def regex_exec_def
  variable_regex_def object_literal_def terminator_def class_run_def group_text_def
  or_else_def is_word_def is_space_def is_digit_def str_def indexOf_def Let_def
  to_decimal.simps

text \<open>The equations that evaluate the structural editor on a literal.\<close>

lemmas number_eval =
  number_to_string_def positive_to_string_def shortest_digits_def search_digits.simps
  digit_candidates_def decimal_exponent_def scaled_value_def scaled_double_def
  round_double_def to_decimal.simps Let_def str_def

lemmas document_eval =
  parse_document_def skip_comment_def cons_ptoken_def is_json_space_def is_digit_def
  cons_string_def lex_number_def lex_int_def lex_frac_def lex_exp_def skip_sign_def
  decimal_value_def digits_value_def round_double_def negate_def lex_escape_def
  simple_escape_def hex_value_def str_def Let_def

lemmas edit_eval =
  activate_document_def activate_variable_def edit_text_def modify_def applyEdits_def
  apply_edit_def replace_node_def insert_item_def index_position_def parseTree_def
  trim_def is_space_def slice_def slice_index_def

section \<open>Properties of the path parser\<close>

lemma parsePath_iter_enough:
  "length input - i \<le> fuel \<Longrightarrow>
     parsePath_iter fuel input i parts = Some (parsePath_loop input i parts)"
proof (induction input i parts arbitrary: fuel rule: parsePath_loop.induct)
  case (1 input i parts)
  show ?case
  proof (cases "i < length input")
    case False
    then show ?thesis
      by (simp add: parsePath_iter.simps parsePath_loop.simps)
  next
    case True
    with "1.prems" obtain fuel' where fuel: "fuel = Suc fuel'"
      by (cases fuel) auto
    show ?thesis
    proof (cases "parsePath_body input i parts")
      case (Return r)
      with True fuel show ?thesis
        by (simp add: parsePath_iter.simps [of "Suc fuel'"] parsePath_loop.simps [of input i])
    next
      case (Continue i' parts')
      with True parsePath_body_advances have "i < i'" "i' \<le> length input"
        by blast+
      with "1.prems" fuel have "length input - i' \<le> fuel'"
        by linarith
      with "1.IH" [OF True Continue]
      have "parsePath_iter fuel' input i' parts' = Some (parsePath_loop input i' parts')"
        by blast
      with True fuel Continue show ?thesis
        by (simp add: parsePath_iter.simps [of "Suc fuel'"] parsePath_loop.simps [of input i])
    qed
  qed
qed

lemma search_from_char:
  "search_from [c] xs k =
     (if c \<in> set xs then int (k + length (takeWhile (\<lambda>x. x \<noteq> c) xs)) else - 1)"
  by (induction xs arbitrary: k) auto

lemma indexOf_char:
  "pos \<le> length s \<Longrightarrow> indexOf s [c] pos =
     (if c \<in> set (drop pos s) then int (pos + length (takeWhile (\<lambda>x. x \<noteq> c) (drop pos s)))
      else - 1)"
  by (simp add: indexOf_def search_from_char min_absorb1)

lemma takeWhile_neq_less: "c \<in> set xs \<Longrightarrow> length (takeWhile (\<lambda>x. x \<noteq> c) xs) < length xs"
  by (induction xs) auto

lemma indexOf_char_found:
  assumes "pos \<le> length s" and "indexOf s [c] pos \<noteq> - 1"
  shows "int pos \<le> indexOf s [c] pos" and "nat (indexOf s [c] pos) < length s"
    and "s ! nat (indexOf s [c] pos) = c"
proof -
  let ?n = "length (takeWhile (\<lambda>x. x \<noteq> c) (drop pos s))"
  from assms have mem: "c \<in> set (drop pos s)"
    by (auto simp: indexOf_char split: if_splits)
  with assms have eq: "indexOf s [c] pos = int (pos + ?n)"
    by (simp add: indexOf_char)
  from mem have lt: "?n < length (drop pos s)"
    by (rule takeWhile_neq_less)
  then have "drop pos s ! ?n = c"
    using nth_length_takeWhile [of "\<lambda>x. x \<noteq> c" "drop pos s"] by blast
  moreover from eq have "nat (indexOf s [c] pos) = pos + ?n"
    by (simp only: nat_int)
  ultimately show "s ! nat (indexOf s [c] pos) = c"
    using lt assms(1) by simp
  from eq show "int pos \<le> indexOf s [c] pos" by simp
  from lt eq show "nat (indexOf s [c] pos) < length s" by simp
qed

lemma scan_bare_stop:
  "i \<le> p \<Longrightarrow> p < length input \<Longrightarrow> input ! p = ch CHR ''.'' \<or> input ! p = ch CHR ''[''
     \<Longrightarrow> scan_bare input i \<le> p"
proof (induction input i rule: scan_bare.induct)
  case (1 input j)
  show ?case
  proof (cases "j = p")
    case True
    with "1.prems" show ?thesis by (subst scan_bare.simps) auto
  next
    case False
    with "1.prems" have "j + 1 \<le> p" by simp
    with 1 show ?thesis by (subst scan_bare.simps) auto
  qed
qed

lemma parsePath_body_unclosed:
  assumes "p < length input" and "input ! p = ch CHR ''[''"
    and "\<forall>q. p < q \<and> q < length input \<longrightarrow> input ! q \<noteq> ch CHR '']''"
    and "i \<le> p"
  shows "parsePath_body input i parts = Return []
     \<or> (\<exists>i' parts'. parsePath_body input i parts = Continue i' parts' \<and> i' \<le> p)"
proof -
  consider (dot) "input ! i = ch CHR ''.''"
    | (bracket) "input ! i \<noteq> ch CHR ''.''" "input ! i = ch CHR ''[''"
    | (bare) "input ! i \<noteq> ch CHR ''.''" "input ! i \<noteq> ch CHR ''[''"
    by blast
  then show ?thesis
  proof cases
    case dot
    with assms have "i \<noteq> p" by auto
    with assms dot show ?thesis by (simp add: parsePath_body_def)
  next
    case bracket
    define close where "close = indexOf input (str '']'') (Suc i)"
    show ?thesis
    proof (cases "close = - 1")
      case True
      with bracket show ?thesis
        by (simp add: parsePath_body_def close_def)
    next
      case False
      from assms have le: "i + 1 \<le> length input" by simp
      from False have ne: "indexOf input [ch CHR '']''] (i + 1) \<noteq> - 1"
        by (simp add: close_def str_def)
      note found = indexOf_char_found [OF le ne]
      have close_eq: "indexOf input [ch CHR '']''] (i + 1) = close"
        by (simp add: close_def str_def)
      from found have c1: "int (i + 1) \<le> close" and c2: "nat close < length input"
        and c3: "input ! nat close = ch CHR '']''"
        by (simp_all only: close_eq)
      from c2 c3 assms(3) have "\<not> p < nat close" by blast
      moreover from c3 assms(2) have "nat close \<noteq> p" by auto
      ultimately have lt: "nat close < p" by simp
      then have i'_le: "nat (close + 1) \<le> p" using c1 by simp
      have "input ! nat (close + 1) = ch CHR ''.'' \<Longrightarrow> nat (close + 1) \<noteq> p"
        using assms(2) by auto
      with i'_le have "input ! nat (close + 1) = ch CHR ''.'' \<Longrightarrow> nat (close + 1) + 1 \<le> p"
        by simp
      with i'_le bracket False show ?thesis
        by (simp add: parsePath_body_def Let_def close_def [symmetric])
    qed
  next
    case bare
    from scan_bare_stop [of i p input] assms have "scan_bare input i \<le> p"
      by simp
    with bare show ?thesis
      by (simp add: parsePath_body_def Let_def)
  qed
qed

lemma parsePath_loop_unclosed:
  "p < length input \<Longrightarrow> input ! p = ch CHR ''[''
    \<Longrightarrow> \<forall>q. p < q \<and> q < length input \<longrightarrow> input ! q \<noteq> ch CHR '']''
    \<Longrightarrow> i \<le> p \<Longrightarrow> parsePath_loop input i parts = []"
proof (induction input i parts rule: parsePath_loop.induct)
  case (1 input i parts)
  from "1.prems" have lt: "i < length input" by simp
  from parsePath_body_unclosed [OF "1.prems", of parts]
  show ?case
  proof (elim disjE exE conjE)
    assume "parsePath_body input i parts = Return []"
    with lt show ?thesis by (simp add: parsePath_loop.simps [of input i])
  next
    fix i' parts'
    assume body: "parsePath_body input i parts = Continue i' parts'" and "i' \<le> p"
    with "1.IH" [OF lt body] "1.prems" have "parsePath_loop input i' parts' = []"
      by blast
    with lt body show ?thesis by (simp add: parsePath_loop.simps [of input i])
  qed
qed

lemma parsePath_loop_dots:
  "\<forall>k. i \<le> k \<and> k < length input \<longrightarrow> input ! k = ch CHR ''.''
     \<Longrightarrow> parsePath_loop input i parts = parts"
proof (induction input i parts rule: parsePath_loop.induct)
  case (1 input i parts)
  show ?case
  proof (cases "i < length input")
    case False
    then show ?thesis by (simp add: parsePath_loop.simps [of input i])
  next
    case True
    with "1.prems" have dot: "input ! i = ch CHR ''.''" by simp
    then have body: "parsePath_body input i parts = Continue (i + 1) parts"
      by (simp add: parsePath_body_def)
    from "1.prems" have "\<forall>k. i + 1 \<le> k \<and> k < length input \<longrightarrow> input ! k = ch CHR ''.''"
      by simp
    with "1.IH" [OF True body] have "parsePath_loop input (i + 1) parts = parts"
      by blast
    with True body show ?thesis by (simp add: parsePath_loop.simps [of input i])
  qed
qed

lemma nonempty_key_Key: "nonempty_key (Key t) \<longleftrightarrow> t \<noteq> []"
  by (simp add: nonempty_key_def)

lemma parsePath_loop_bare:
  "ch CHR ''['' \<notin> set input \<Longrightarrow> list_all nonempty_key parts
     \<Longrightarrow> list_all nonempty_key (parsePath_loop input i parts)"
proof (induction input i parts rule: parsePath_loop.induct)
  case (1 input i parts)
  show ?case
  proof (cases "i < length input")
    case False
    with "1.prems" show ?thesis by (simp add: parsePath_loop.simps [of input i])
  next
    case True
    with "1.prems" have nb: "input ! i \<noteq> ch CHR ''[''"
      by (metis nth_mem)
    with "1.prems"(2)
    have "\<exists>i' parts'. parsePath_body input i parts = Continue i' parts'
        \<and> list_all nonempty_key parts'"
      by (simp add: parsePath_body_def Let_def nonempty_key_Key)
    then obtain i' parts' where body: "parsePath_body input i parts = Continue i' parts'"
      and keys: "list_all nonempty_key parts'"
      by blast
    from "1.IH" [OF True body "1.prems"(1) keys] True body show ?thesis
      by (simp add: parsePath_loop.simps [of input i])
  qed
qed

lemma parsePath_body_dot:
  "input ! i = ch CHR ''.'' \<Longrightarrow> parsePath_body input i parts = Continue (i + 1) parts"
  by (simp add: parsePath_body_def)

lemma parsePath_body_bare:
  assumes "input ! i \<noteq> ch CHR ''[''" and "parsePath_body input i parts = Continue i' parts'"
  shows "parts' = parts \<or> (\<exists>t. t \<noteq> [] \<and> parts' = parts @ [Key t])"
  using assms by (auto simp: parsePath_body_def Let_def split: if_splits)

lemma parsePath_body_origin:
  assumes "parsePath_body input i parts = Continue i' parts'"
  shows "parts' = parts \<or> (\<exists>t. t \<noteq> [] \<and> parts' = parts @ [Key t])
     \<or> (input ! i = ch CHR ''['' \<and> parts' = parts @ [bracket_at input i])"
  using assms by (auto simp: parsePath_body_def bracket_at_def Let_def split: if_splits)

lemma parsePath_loop_origin:
  "\<forall>a \<in> set parts. nonempty_key a
       \<or> (\<exists>p < length input. input ! p = ch CHR ''['' \<and> a = bracket_at input p)
     \<Longrightarrow> \<forall>a \<in> set (parsePath_loop input i parts). nonempty_key a
           \<or> (\<exists>p < length input. input ! p = ch CHR ''['' \<and> a = bracket_at input p)"
proof (induction input i parts rule: parsePath_loop.induct)
  case (1 input i parts)
  show ?case
  proof (cases "i < length input")
    case False
    with "1.prems" show ?thesis by (simp add: parsePath_loop.simps [of input i])
  next
    case True
    show ?thesis
    proof (cases "parsePath_body input i parts")
      case (Return r)
      then have "r = []"
        by (auto simp: parsePath_body_def Let_def split: if_splits)
      with True Return show ?thesis by (simp add: parsePath_loop.simps [of input i])
    next
      case (Continue i' parts')
      from parsePath_body_origin [OF Continue] "1.prems" True
      have "\<forall>a \<in> set parts'. nonempty_key a
          \<or> (\<exists>p < length input. input ! p = ch CHR ''['' \<and> a = bracket_at input p)"
        by (fastforce simp: nonempty_key_Key)
      from "1.IH" [OF True Continue this] True Continue show ?thesis
        by (simp add: parsePath_loop.simps [of input i])
    qed
  qed
qed

text \<open>
  C8. \<open>parsePath\<close> returns the empty array on the empty input, on an input of dots
  only, and on an input with a \<open>[\<close> that no \<open>]\<close> follows. Dots never make it push
  an empty key, on any input: an iteration of the loop that stands on a dot goes on to the
  next position with \<open>parts\<close> as it was; an iteration that stands on neither a dot nor
  a \<open>[\<close> pushes nothing or one key that is not empty; so every element of the result is
  a key that is not empty or is what a bracket accessor of the input pushed, and on an input
  without a bracket every element is a key that is not empty.
\<close>

theorem parsePath_failure:
  "parsePath [] = []
   \<and> (set input \<subseteq> {ch CHR ''.''} \<longrightarrow> parsePath input = [])
   \<and> ((\<exists>p < length input. input ! p = ch CHR ''[''
          \<and> (\<forall>q. p < q \<and> q < length input \<longrightarrow> input ! q \<noteq> ch CHR '']''))
        \<longrightarrow> parsePath input = [])
   \<and> (\<forall>i parts. i < length input \<and> input ! i = ch CHR ''.''
          \<longrightarrow> parsePath_body input i parts = Continue (i + 1) parts)
   \<and> (\<forall>i parts i' parts'. i < length input \<and> input ! i \<noteq> ch CHR ''[''
          \<and> parsePath_body input i parts = Continue i' parts'
          \<longrightarrow> parts' = parts \<or> (\<exists>t. t \<noteq> [] \<and> parts' = parts @ [Key t]))
   \<and> (\<forall>a \<in> set (parsePath input). nonempty_key a
          \<or> (\<exists>p < length input. input ! p = ch CHR ''['' \<and> a = bracket_at input p))
   \<and> (ch CHR ''['' \<notin> set input \<longrightarrow> list_all nonempty_key (parsePath input))"
proof (intro conjI impI)
  show "parsePath [] = []"
    by (simp add: parsePath_def parsePath_loop.simps)
  show "parsePath input = []" if "set input \<subseteq> {ch CHR ''.''}"
  proof -
    from that have "\<forall>k. 0 \<le> k \<and> k < length input \<longrightarrow> input ! k = ch CHR ''.''"
      using nth_mem by blast
    then show ?thesis
      unfolding parsePath_def by (rule parsePath_loop_dots)
  qed
  show "parsePath input = []"
    if "\<exists>p < length input. input ! p = ch CHR ''[''
          \<and> (\<forall>q. p < q \<and> q < length input \<longrightarrow> input ! q \<noteq> ch CHR '']'')"
  proof -
    from that obtain p where "p < length input" "input ! p = ch CHR ''[''"
      "\<forall>q. p < q \<and> q < length input \<longrightarrow> input ! q \<noteq> ch CHR '']''"
      by blast
    then show ?thesis
      unfolding parsePath_def by (rule parsePath_loop_unclosed) simp
  qed
  show "\<forall>i parts. i < length input \<and> input ! i = ch CHR ''.''
          \<longrightarrow> parsePath_body input i parts = Continue (i + 1) parts"
    using parsePath_body_dot by blast
  show "\<forall>i parts i' parts'. i < length input \<and> input ! i \<noteq> ch CHR ''[''
          \<and> parsePath_body input i parts = Continue i' parts'
          \<longrightarrow> parts' = parts \<or> (\<exists>t. t \<noteq> [] \<and> parts' = parts @ [Key t])"
    using parsePath_body_bare by blast
  show "\<forall>a \<in> set (parsePath input). nonempty_key a
          \<or> (\<exists>p < length input. input ! p = ch CHR ''['' \<and> a = bracket_at input p)"
    unfolding parsePath_def by (rule parsePath_loop_origin) simp
  show "list_all nonempty_key (parsePath input)" if "ch CHR ''['' \<notin> set input"
    unfolding parsePath_def using that by (rule parsePath_loop_bare) simp
qed

theorem parsePath_failure_witness:
  "set (str ''...'') \<subseteq> {ch CHR ''.''} \<and> parsePath (str ''...'') = []
   \<and> (2::nat) < length (str ''a.[0'') \<and> str ''a.[0'' ! 2 = ch CHR ''[''
   \<and> length (str ''a.[0'') = 4 \<and> str ''a.[0'' ! 3 \<noteq> ch CHR '']''
   \<and> parsePath (str ''a.[0'') = []
   \<and> ch CHR ''['' \<notin> set (str ''..a. .b.'')
   \<and> parsePath (str ''..a. .b.'') = [Key (str ''a''), Key (str ''b'')]
   \<and> list_all nonempty_key (parsePath (str ''..a. .b.''))
   \<and> (2::nat) < length (str ''.a..b[\"\"]'') \<and> str ''.a..b[\"\"]'' ! 2 = ch CHR ''.''
   \<and> parsePath_body (str ''.a..b[\"\"]'') 2 [Key (str ''a'')] = Continue 3 [Key (str ''a'')]
   \<and> (3::nat) < length (str ''.a..b[\"\"]'') \<and> str ''.a..b[\"\"]'' ! 3 = ch CHR ''.''
   \<and> parsePath_body (str ''.a..b[\"\"]'') 3 [Key (str ''a'')] = Continue 4 [Key (str ''a'')]
   \<and> str ''.a..b[\"\"]'' ! 4 \<noteq> ch CHR ''[''
   \<and> parsePath_body (str ''.a..b[\"\"]'') 4 [Key (str ''a'')]
       = Continue 5 [Key (str ''a''), Key (str ''b'')]
   \<and> parsePath (str ''.a..b[\"\"]'') = [Key (str ''a''), Key (str ''b''), Key []]
   \<and> str ''.a..b[\"\"]'' ! 5 = ch CHR ''['' \<and> bracket_at (str ''.a..b[\"\"]'') 5 = Key []"
proof -
  let ?p = "str ''.a..b[\"\"]''"
  have a: "set (str ''...'') \<subseteq> {ch CHR ''.''}"
    by (simp add: str_def)
  have b: "(2::nat) < length (str ''a.[0'') \<and> str ''a.[0'' ! 2 = ch CHR ''[''
     \<and> (\<forall>q. 2 < q \<and> q < length (str ''a.[0'') \<longrightarrow> str ''a.[0'' ! q \<noteq> ch CHR '']'')"
    by (auto simp: str_def nth_Cons split: nat.splits)
  have c: "ch CHR ''['' \<notin> set (str ''..a. .b.'')"
    by (simp add: str_def)
  have d: "parsePath (str ''..a. .b.'') = [Key (str ''a''), Key (str ''b'')]"
    by (simp add: parsePath_eval)
  from parsePath_failure [of "str ''...''"] a have 1: "parsePath (str ''...'') = []"
    by blast
  from parsePath_failure [of "str ''a.[0''"] b have 2: "parsePath (str ''a.[0'') = []"
    by blast
  from parsePath_failure [of "str ''..a. .b.''"] c
  have 3: "list_all nonempty_key (parsePath (str ''..a. .b.''))"
    by blast
  have e: "length (str ''a.[0'') = 4 \<and> str ''a.[0'' ! 3 \<noteq> ch CHR '']''"
    by (simp add: str_def)
  have f: "(2::nat) < length ?p \<and> ?p ! 2 = ch CHR ''.''"
    "(3::nat) < length ?p \<and> ?p ! 3 = ch CHR ''.''"
    "?p ! 4 \<noteq> ch CHR ''[''" "?p ! 5 = ch CHR ''[''"
    by (simp_all add: str_def)
  from parsePath_failure [of ?p] f(1)
  have 4: "parsePath_body ?p 2 [Key (str ''a'')] = Continue (2 + 1) [Key (str ''a'')]"
    by blast
  from parsePath_failure [of ?p] f(2)
  have 5: "parsePath_body ?p 3 [Key (str ''a'')] = Continue (3 + 1) [Key (str ''a'')]"
    by blast
  have 6: "parsePath_body ?p 4 [Key (str ''a'')] = Continue 5 [Key (str ''a''), Key (str ''b'')]"
    by (simp add: parsePath_eval)
  have 7: "parsePath ?p = [Key (str ''a''), Key (str ''b''), Key []]"
    by (simp add: parsePath_eval)
  have 8: "bracket_at ?p 5 = Key []"
    by (simp add: bracket_at_def parsePath_eval)
  from 4 5 have 45: "parsePath_body ?p 2 [Key (str ''a'')] = Continue 3 [Key (str ''a'')]"
    "parsePath_body ?p 3 [Key (str ''a'')] = Continue 4 [Key (str ''a'')]"
    by simp_all
  from a b c d e 1 2 3 f 45 6 7 8 show ?thesis by blast
qed

text \<open>
  C9. \<open>parsePath\<close> returns for every input: each iteration of its loop that does not
  return moves the position strictly forward and not beyond the end of the input, so the
  loop ends within \<open>input.length\<close> iterations with the list that \<open>parsePath\<close> returns.
  No step of the scan can throw (the model has no error branch to take).
\<close>

theorem parsePath_terminates:
  "parsePath_iter (length input) input 0 [] = Some (parsePath input)
   \<and> (\<forall>i parts i' parts'.
         i < length input \<longrightarrow> parsePath_body input i parts = Continue i' parts'
         \<longrightarrow> i < i' \<and> i' \<le> length input)"
  using parsePath_iter_enough [of input 0 "length input" "[]"]
    parsePath_body_advances [of _ input]
  by (simp add: parsePath_def)

theorem parsePath_terminates_witness:
  "(1::nat) < length (str ''a[0].b'')
   \<and> parsePath_body (str ''a[0].b'') 1 [Key (str ''a'')]
       = Continue 5 [Key (str ''a''), Index (Finite 0)]
   \<and> (1::nat) < 5 \<and> 5 \<le> length (str ''a[0].b'')
   \<and> parsePath_iter 6 (str ''a[0].b'') 0 []
       = Some [Key (str ''a''), Index (Finite 0), Key (str ''b'')]"
proof -
  have len: "length (str ''a[0].b'') = 6"
    by (simp add: str_def)
  have body: "parsePath_body (str ''a[0].b'') 1 [Key (str ''a'')]
      = Continue 5 [Key (str ''a''), Index (Finite 0)]"
    by (simp add: parsePath_eval)
  have res: "parsePath (str ''a[0].b'') = [Key (str ''a''), Index (Finite 0), Key (str ''b'')]"
    by (simp add: parsePath_eval)
  from parsePath_terminates [of "str ''a[0].b''"] len body res show ?thesis
    by simp
qed

text \<open>
  C10. A bracket accessor whose trimmed content is one quote character (\<open>'\<close> or
  \<open>"\<close>) counts as quote-wrapped and pushes the empty key:
  \<open>parsePath("[']") = [""]\<close>, since \<open>slice(1, -1)\<close> of a one-character string is empty.
\<close>

theorem parsePath_single_quote:
  "bracket_part (str [CHR 0x27]) = Key [] \<and> bracket_part (str [CHR 0x22]) = Key []
   \<and> parsePath (str [CHR ''['', CHR 0x27, CHR '']'']) = [Key []]
   \<and> parsePath (str [CHR ''['', CHR 0x22, CHR '']'']) = [Key []]"
  by (simp add: parsePath_eval)

lemma bitlen_le: "n < 2 ^ k \<Longrightarrow> bitlen n \<le> k"
proof (induction k arbitrary: n)
  case 0
  then show ?case by simp
next
  case (Suc k)
  show ?case
  proof (cases "n = 0")
    case True
    then show ?thesis by simp
  next
    case False
    from Suc.prems have "n div 2 < 2 ^ k" by simp
    then have "bitlen (n div 2) \<le> k" by (rule Suc.IH)
    with False show ?thesis by (subst bitlen.simps) simp
  qed
qed

lemma bitlen_pos: "0 < n \<Longrightarrow> 0 < bitlen n"
  by (subst bitlen.simps) simp

lemma round_double_exact:
  assumes "n < 2 ^ 53"
  shows "round_double n 1 = Finite (of_nat n)"
proof (cases "n = 0")
  case True
  then show ?thesis by (simp add: round_double_def)
next
  case False
  define e1 where "e1 = int (bitlen n) - int (bitlen 1) - 53"
  define over where "over = (if e1 < 0 then (n * 2 ^ nat (- e1)) div 1 else n div (1 * 2 ^ nat e1))"
  define e2 where "e2 = (if 2 ^ 53 \<le> over then e1 + 1 else e1)"
  define e where "e = max e2 (- 1074)"
  have b1: "bitlen 1 = 1" by simp
  from assms have "bitlen n \<le> 53" by (rule bitlen_le)
  moreover from False have "0 < bitlen n" by (simp add: bitlen_pos)
  ultimately have "e1 \<le> - 1" "- 53 \<le> e1"
    by (simp_all add: e1_def b1)
  then have e_rng: "e \<le> 0" "- 1074 \<le> e"
    by (simp_all add: e_def e2_def)
  have v: "(of_nat (n * 2 ^ k) :: rat) / 2 ^ k = of_nat n" for k
    by simp
  from assms have small: "(of_nat n :: rat) < 2 ^ 1024"
  proof -
    have "(2::nat) ^ 53 \<le> 2 ^ 1024" by (rule power_increasing) simp_all
    with assms have "n < 2 ^ 1024" by linarith
    then have "(of_nat n :: rat) < of_nat (2 ^ 1024)" by (simp only: of_nat_less_iff)
    then show ?thesis by simp
  qed
  have "round_double n 1 =
     (let N = (if e < 0 then n * 2 ^ nat (- e) else n);
          D = (if e < 0 then 1 else 1 * 2 ^ nat e);
          q = N div D;
          r = N mod D;
          q' = (if D < 2 * r \<or> (2 * r = D \<and> odd q) then q + 1 else q);
          v = (if e < 0 then of_nat q' / 2 ^ nat (- e) else of_nat q' * 2 ^ nat e)
      in if 2 ^ 1024 \<le> v then Infinity else Finite v)"
    using False unfolding round_double_def e_def e2_def over_def e1_def Let_def by simp
  also have "\<dots> = Finite (of_nat n)"
  proof (cases "e < 0")
    case True
    with small show ?thesis by (simp add: Let_def v)
  next
    case False
    with e_rng have "e = 0" by simp
    with small show ?thesis by (simp add: Let_def)
  qed
  finally show ?thesis .
qed

lemma slice_nonneg:
  "a \<le> b \<Longrightarrow> b \<le> length s \<Longrightarrow> slice s (int a) (int b) = take (b - a) (drop a s)"
  by (simp add: slice_def slice_index_def Let_def min_absorb1)

lemma slice_strip: "slice s 1 (- 1) = butlast (tl s)"
proof (cases s)
  case Nil
  then show ?thesis by (simp add: slice_def slice_index_def)
next
  case (Cons x xs)
  then show ?thesis
    by (simp add: slice_def slice_index_def Let_def butlast_conv_take)
qed

lemma startsWith_char: "startsWith s [c] \<longleftrightarrow> s \<noteq> [] \<and> hd s = c"
  by (cases s) (simp_all add: startsWith_def)

lemma endsWith_char: "endsWith s [c] \<longleftrightarrow> s \<noteq> [] \<and> last s = c"
proof (cases "s = []")
  case True
  then show ?thesis by (simp add: endsWith_def)
next
  case False
  then have "drop (length (butlast s)) (butlast s @ [last s]) = [last s]"
    by (simp only: drop_append drop_all order_refl diff_self_eq_0 drop_0 append_Nil)
  with False have "drop (length s - Suc 0) s = [last s]"
    by simp
  with False show ?thesis
    by (auto simp: endsWith_def Suc_le_eq)
qed

lemma indexOf_first:
  assumes "pos \<le> close" and "close < length s" and "s ! close = c"
    and "\<forall>k. pos \<le> k \<and> k < close \<longrightarrow> s ! k \<noteq> c"
  shows "indexOf s [c] pos = int close"
proof -
  let ?xs = "drop pos s"
  let ?n = "close - pos"
  from assms have n_lt: "?n < length ?xs" by simp
  from assms have at: "?xs ! ?n = c" by simp
  from assms have before: "\<And>k. k < ?n \<Longrightarrow> ?xs ! k \<noteq> c" by simp
  have "takeWhile (\<lambda>x. x \<noteq> c) ?xs = take ?n ?xs"
    by (rule takeWhile_eq_take_P_nth) (use before at in auto)
  with n_lt have len: "length (takeWhile (\<lambda>x. x \<noteq> c) ?xs) = ?n" by simp
  from n_lt at have mem: "c \<in> set ?xs" by (metis nth_mem)
  from assms have "pos \<le> length s" by simp
  with mem len assms(1) show ?thesis
    by (simp add: indexOf_char del: of_nat_add)
qed

lemma bracket_part_cases:
  "bracket_part inside =
     (if inside \<noteq> [] \<and> (\<forall>c \<in> set inside. is_digit c)
      then Index (round_double (digits_value inside) 1)
      else if inside \<noteq> [] \<and> (hd inside = ch CHR 0x22 \<and> last inside = ch CHR 0x22
                \<or> hd inside = ch CHR 0x27 \<and> last inside = ch CHR 0x27)
      then Key (butlast (tl inside))
      else Key inside)"
proof -
  have q: "str [CHR 0x22] = [ch CHR 0x22]" "str [CHR 0x27] = [ch CHR 0x27]"
    by (simp_all add: str_def)
  show ?thesis
    unfolding bracket_part_def all_digits_def Number_of_digits_def q startsWith_char
      endsWith_char slice_strip list_all_iff
    by auto
qed

text \<open>
  C7 (as amended). At a \<open>[\<close> whose first following \<open>]\<close> is at \<open>close\<close>, the loop
  pushes exactly one element, made from the trimmed text between the brackets, and goes on
  after the \<open>]\<close> (and after one dot that follows it). All digits: the index
  \<open>Number(inside)\<close>, the double nearest to the decimal value, which is that integer
  itself when it is below \<open>2 ^ 53\<close>. Else first and last character the same quote:
  the key without its first and last character. Else the key \<open>inside\<close> itself.
\<close>

theorem parsePath_bracket:
  assumes "i < close" and "close < length input"
    and "input ! i = ch CHR ''[''" and "input ! close = ch CHR '']''"
    and "\<forall>k. i < k \<and> k < close \<longrightarrow> input ! k \<noteq> ch CHR '']''"
  shows
    "let inside = trim (take (close - Suc i) (drop (Suc i) input)) in
       parsePath_loop input i parts =
         parsePath_loop input
           (if Suc close < length input \<and> input ! Suc close = ch CHR ''.''
            then close + 2 else close + 1)
           (parts @
             [if inside \<noteq> [] \<and> (\<forall>c \<in> set inside. is_digit c)
              then Index (round_double (digits_value inside) 1)
              else if inside \<noteq> [] \<and> (hd inside = ch CHR 0x22 \<and> last inside = ch CHR 0x22
                        \<or> hd inside = ch CHR 0x27 \<and> last inside = ch CHR 0x27)
              then Key (butlast (tl inside))
              else Key inside])
       \<and> (digits_value inside < 2 ^ 53 \<longrightarrow>
            round_double (digits_value inside) 1 = Finite (of_nat (digits_value inside)))"
proof -
  from assms have lt: "i < length input" by simp
  from assms(3) have nodot: "input ! i \<noteq> ch CHR ''.''" by simp
  have "indexOf input [ch CHR '']''] (Suc i) = int close"
    by (rule indexOf_first) (use assms in \<open>auto simp: Suc_le_eq\<close>)
  then have close: "indexOf input (str '']'') (i + 1) = int close"
    by (simp add: str_def)
  from assms have sl: "slice input (int (i + 1)) (int close)
      = take (close - Suc i) (drop (Suc i) input)"
    using slice_nonneg [of "Suc i" close input] by simp
  have body: "parsePath_body input i parts =
      Continue (if Suc close < length input \<and> input ! Suc close = ch CHR ''.''
                then close + 2 else close + 1)
        (parts @ [bracket_part (trim (take (close - Suc i) (drop (Suc i) input)))])"
    unfolding parsePath_body_def close sl Let_def using nodot assms(3)
    by (simp add: nat_add_distrib)
  show ?thesis
    unfolding Let_def bracket_part_cases [symmetric]
    using lt body round_double_exact
    by (simp add: parsePath_loop.simps [of input i])
qed

theorem parsePath_bracket_witness:
  "(1::nat) < 4 \<and> 4 < length (str ''a[12].b'')
   \<and> str ''a[12].b'' ! 1 = ch CHR ''['' \<and> str ''a[12].b'' ! 4 = ch CHR '']''
   \<and> str ''a[12].b'' ! 2 \<noteq> ch CHR '']'' \<and> str ''a[12].b'' ! 3 \<noteq> ch CHR '']''
   \<and> trim (take (4 - Suc 1) (drop (Suc 1) (str ''a[12].b''))) = str ''12''
   \<and> parsePath_loop (str ''a[12].b'') 1 [Key (str ''a'')]
       = parsePath_loop (str ''a[12].b'') 6 [Key (str ''a''), Index (Finite 12)]
   \<and> parsePath (str ''a[12].b'') = [Key (str ''a''), Index (Finite 12), Key (str ''b'')]"
proof -
  have nth: "str ''a[12].b'' ! 1 = ch CHR ''['' \<and> str ''a[12].b'' ! 4 = ch CHR '']''"
    by (simp add: str_def)
  have len: "(4::nat) < length (str ''a[12].b'')"
    by (simp add: str_def)
  have no: "\<forall>k. 1 < k \<and> k < 4 \<longrightarrow> str ''a[12].b'' ! k \<noteq> ch CHR '']''"
  proof (intro allI impI)
    fix k :: nat
    assume "1 < k \<and> k < 4"
    then have "k = 2 \<or> k = 3" by auto
    then show "str ''a[12].b'' ! k \<noteq> ch CHR '']''"
      by (auto simp: str_def)
  qed
  have inside: "trim (take (4 - Suc 1) (drop (Suc 1) (str ''a[12].b''))) = str ''12''"
    by (simp add: parsePath_eval)
  have dv: "digits_value (str ''12'') = 12"
    by (simp add: parsePath_eval)
  have res: "parsePath (str ''a[12].b'') = [Key (str ''a''), Index (Finite 12), Key (str ''b'')]"
    by (simp add: parsePath_eval)
  have "parsePath_loop (str ''a[12].b'') 1 [Key (str ''a'')]
       = parsePath_loop (str ''a[12].b'') 6 [Key (str ''a''), Index (Finite 12)]"
    using parsePath_bracket [of 1 4 "str ''a[12].b''" "[Key (str ''a'')]"] nth len no
    unfolding Let_def inside dv
    by (simp add: str_def is_digit_def)
  moreover have "str ''a[12].b'' ! 2 \<noteq> ch CHR '']'' \<and> str ''a[12].b'' ! 3 \<noteq> ch CHR '']''"
    by (simp add: str_def)
  ultimately show ?thesis
    using nth len inside res by simp
qed

text \<open>
  The index is not always that integer: \<open>2 ^ 53 + 1\<close> is no double, and
  \<open>Number("9007199254740993")\<close> is \<open>9007199254740992\<close>.
\<close>

theorem parsePath_bracket_counterexample:
  "parsePath (str ''[9007199254740993]'') = [Index (Finite 9007199254740992)]
   \<and> digits_value (str ''9007199254740993'') = 9007199254740993
   \<and> Index (Finite 9007199254740992)
       \<noteq> Index (Finite (of_nat (digits_value (str ''9007199254740993''))))"
  by (simp add: parsePath_eval)

section \<open>Properties of the value coercer\<close>

text \<open>
  C6. \<open>coerceValue(raw)\<close> is the value \<open>JSON.parse(raw)\<close> when the parse succeeds,
  and the string \<open>raw\<close> itself when the parse throws. In particular
  \<open>coerceValue("123") = 123\<close>, \<open>coerceValue("true") = true\<close>,
  \<open>coerceValue('"x"') = "x"\<close>, and \<open>coerceValue("x") = "x"\<close> with no error.
\<close>

theorem coerceValue_parses:
  "(\<forall>v. JSON_parse raw = Inr v \<longrightarrow> coerceValue raw = v)
   \<and> ((\<exists>e. JSON_parse raw = Inl e) \<longrightarrow> coerceValue raw = JString raw)
   \<and> coerceValue (str ''123'') = JNumber (Finite 123)
   \<and> coerceValue (str ''true'') = JBool True
   \<and> coerceValue (str [CHR 0x22, CHR ''x'', CHR 0x22]) = JString (str ''x'')
   \<and> coerceValue (str ''x'') = JString (str ''x'')"
proof (intro conjI)
  show "\<forall>v. JSON_parse raw = Inr v \<longrightarrow> coerceValue raw = v"
    by (simp add: coerceValue_def)
  show "(\<exists>e. JSON_parse raw = Inl e) \<longrightarrow> coerceValue raw = JString raw"
    by (auto simp: coerceValue_def)
  show "coerceValue (str ''123'') = JNumber (Finite 123)"
    by (simp add: JSON_eval)
  show "coerceValue (str ''true'') = JBool True"
    by (simp add: JSON_eval)
  show "coerceValue (str [CHR 0x22, CHR ''x'', CHR 0x22]) = JString (str ''x'')"
    by (simp add: JSON_eval)
  show "coerceValue (str ''x'') = JString (str ''x'')"
    by (simp add: JSON_eval)
qed

theorem coerceValue_parses_witness:
  "JSON_parse (str ''[1, {\"a\": null}]'')
     = Inr (JArray [JNumber (Finite 1), JObject [(str ''a'', JNull)]])
   \<and> coerceValue (str ''[1, {\"a\": null}]'')
     = JArray [JNumber (Finite 1), JObject [(str ''a'', JNull)]]
   \<and> JSON_parse (str ''[1, {a: null}]'') = Inl SyntaxError
   \<and> coerceValue (str ''[1, {a: null}]'') = JString (str ''[1, {a: null}]'')"
proof -
  have ok: "JSON_parse (str ''[1, {\"a\": null}]'')
     = Inr (JArray [JNumber (Finite 1), JObject [(str ''a'', JNull)]])"
    by (simp add: JSON_eval)
  have bad: "JSON_parse (str ''[1, {a: null}]'') = Inl SyntaxError"
    by (simp add: JSON_eval)
  from coerceValue_parses [of "str ''[1, {\"a\": null}]''"] ok
  have 1: "coerceValue (str ''[1, {\"a\": null}]'')
     = JArray [JNumber (Finite 1), JObject [(str ''a'', JNull)]]"
    by blast
  from coerceValue_parses [of "str ''[1, {a: null}]''"] bad
  have 2: "coerceValue (str ''[1, {a: null}]'') = JString (str ''[1, {a: null}]'')"
    by blast
  from ok bad 1 2 show ?thesis by blast
qed

section \<open>Properties of the embedded-object locator\<close>

text \<open>
  C1. The validation of a candidate is the call \<open>parseTree(json)\<close> in the \<open>try\<close>:
  the element is pushed whenever the call returns, and neither the tree it returns nor the
  errors it found are looked at. So a candidate is excluded only when the call throws. The
  function that jsonc-parser exports as \<open>parseTree\<close> is fault tolerant: it returns for
  every text and does not throw. For every function \<open>validate\<close> in its place that
  returns on the text \<open>{ not json }\<close>, \<open>findJsonVariables\<close> keeps that candidate of
  \<open>const a = { not json };\<close>, although the text is no JSON-with-comments structure: the
  structural parse of it fails.
\<close>

theorem findJsonVariables_keeps_malformed:
  assumes "validate (str ''{ not json }'') = Inr t"
  shows "findJsonVariables validate (str ''const a = { not json };'')
       = [\<lparr>name = str ''a'', json = str ''{ not json }'', jsonStart = 10, jsonEnd = 22\<rparr>]
     \<and> parse_document (str ''{ not json }'') = None"
  using assms by (simp add: regex_eval document_eval)

theorem findJsonVariables_keeps_malformed_witness:
  "tolerant_parseTree (str ''{ not json }'') = Inr None
   \<and> findJsonVariables tolerant_parseTree (str ''const a = { not json };'')
       = [\<lparr>name = str ''a'', json = str ''{ not json }'', jsonStart = 10, jsonEnd = 22\<rparr>]
   \<and> parse_document (str ''{ not json }'') = None"
proof -
  have "tolerant_parseTree (str ''{ not json }'') = Inr None"
    by (simp add: tolerant_parseTree_def document_eval)
  from findJsonVariables_keeps_malformed [of tolerant_parseTree None, OF this] this
  show ?thesis
    by blast
qed

section \<open>Properties of the structural editor\<close>

lemma number_5: "number_to_string (Finite 5) = str ''5''"
  by (simp add: number_eval cong: let_weak_cong)

lemma number_2: "number_to_string (Finite 2) = str ''2''"
  by (simp add: number_eval cong: let_weak_cong)

lemma parse_document_siblings:
  "parse_document (str ''{\"a\":{\"b\":1,\"c\":2} /* keep */}'')
    = Some (Obj 0 30 [(str ''a'', Obj 5 13 [(str ''b'', Leaf 10 1), (str ''c'', Leaf 16 1)])])"
  by (simp add: document_eval)

text \<open>
  C2. In the document \<open>{"a":{"b":1,"c":2} /* keep */}\<close>, computing and applying the edits
  for the path \<open>a.b\<close> and any value gives the same text with the serialized value in the
  place of the \<open>1\<close>: the member \<open>c\<close>, the comment and everything else are as they were.
\<close>

theorem edit_keeps_siblings:
  "parsePath (str ''a.b'') = [Key (str ''a''), Key (str ''b'')]
   \<and> edit_text fmt (str ''{\"a\":{\"b\":1,\"c\":2} /* keep */}'') (parsePath (str ''a.b'')) v
     = Inr (str ''{\"a\":{\"b\":'' @ serialize fmt 2 v @ str '',\"c\":2} /* keep */}'')"
proof -
  have path: "parsePath (str ''a.b'') = [Key (str ''a''), Key (str ''b'')]"
    by (simp add: parsePath_eval)
  have "edit_text fmt (str ''{\"a\":{\"b\":1,\"c\":2} /* keep */}'') [Key (str ''a''), Key (str ''b'')] v
     = Inr (str ''{\"a\":{\"b\":'' @ serialize fmt 2 v @ str '',\"c\":2} /* keep */}'')"
    by (simp add: edit_eval parse_document_siblings) (simp add: str_def numeral_2_eq_2)
  with path show ?thesis by simp
qed

lemma path_a0b:
  "parsePath (str ''a[0].b'') = [Key (str ''a''), Index (Finite 0), Key (str ''b'')]"
  by (simp add: parsePath_eval)

lemma value_5: "coerceValue (str ''5'') = JNumber (Finite 5)"
  by (simp add: JSON_eval)

lemma parse_document_empty_object: "parse_document (str ''{}'') = Some (Obj 0 2 [])"
  by (simp add: document_eval)

lemma activate_document_creates:
  "activate_document fmt (str ''{}'') [Key (str ''a''), Index (Finite 0), Key (str ''b'')]
      (JNumber (Finite 5))
    = Inr (str ''{'' @ newline fmt 1 @ str ''\"a\": ['' @ newline fmt 2 @ str ''{''
           @ newline fmt 3 @ str ''\"b\": 5'' @ newline fmt 2 @ str ''}'' @ newline fmt 1
           @ str '']'' @ newline fmt 0 @ str ''}'')"
  by (simp add: edit_eval parse_document_empty_object number_5 quote_def)
     (simp add: str_def numeral_2_eq_2 numeral_3_eq_3 quote_unit_def is_high_surrogate_def
        is_low_surrogate_def)

lemma lex_spaces: "list_all is_json_space ws \<Longrightarrow> lex (ws @ rest) = lex rest"
  by (induction ws) simp_all

lemma indentation_spaces: "list_all is_json_space (indentation fmt level)"
  by (induction level) (simp_all add: indentation_def is_json_space_def list_all_iff)

lemma lex_indentation: "lex (indentation fmt level @ rest) = lex rest"
  by (simp add: lex_spaces indentation_spaces)

text \<open>
  C3. For the document \<open>{}\<close>, the path \<open>a[0].b\<close> and the value \<open>5\<close>, computing and
  applying the edits gives, whatever the indentation, a text that \<open>JSON.parse\<close> reads as
  \<open>{"a":[{"b":5}]}\<close>: an object was made for the key \<open>a\<close> and for the key \<open>b\<close> and an
  array for the index \<open>0\<close>.
\<close>

theorem create_missing_path:
  "activate_document fmt (str ''{}'') (parsePath (str ''a[0].b'')) (coerceValue (str ''5''))
     = Inr (str ''{'' @ newline fmt 1 @ str ''\"a\": ['' @ newline fmt 2 @ str ''{''
           @ newline fmt 3 @ str ''\"b\": 5'' @ newline fmt 2 @ str ''}'' @ newline fmt 1
           @ str '']'' @ newline fmt 0 @ str ''}'')
   \<and> JSON_parse (str ''{'' @ newline fmt 1 @ str ''\"a\": ['' @ newline fmt 2 @ str ''{''
           @ newline fmt 3 @ str ''\"b\": 5'' @ newline fmt 2 @ str ''}'' @ newline fmt 1
           @ str '']'' @ newline fmt 0 @ str ''}'')
     = Inr (JObject [(str ''a'', JArray [JObject [(str ''b'', JNumber (Finite 5))]])])"
proof
  show "activate_document fmt (str ''{}'') (parsePath (str ''a[0].b'')) (coerceValue (str ''5''))
     = Inr (str ''{'' @ newline fmt 1 @ str ''\"a\": ['' @ newline fmt 2 @ str ''{''
           @ newline fmt 3 @ str ''\"b\": 5'' @ newline fmt 2 @ str ''}'' @ newline fmt 1
           @ str '']'' @ newline fmt 0 @ str ''}'')"
    unfolding path_a0b value_5 by (rule activate_document_creates)
  show "JSON_parse (str ''{'' @ newline fmt 1 @ str ''\"a\": ['' @ newline fmt 2 @ str ''{''
           @ newline fmt 3 @ str ''\"b\": 5'' @ newline fmt 2 @ str ''}'' @ newline fmt 1
           @ str '']'' @ newline fmt 0 @ str ''}'')
     = Inr (JObject [(str ''a'', JArray [JObject [(str ''b'', JNumber (Finite 5))]])])"
    unfolding newline_def by (simp add: JSON_eval lex_indentation)
qed

text \<open>
  C5. In \<open>const cfg = {"x":1};\<close>, a line break, \<open>console.log(cfg);\<close> the locator finds
  one candidate, named \<open>cfg\<close>, from offset 12 to offset 19, which is the object literal
  \<open>{"x":1}\<close>. Editing the path \<open>x\<close> to the value \<open>2\<close> in it and putting the result back
  between the text before and the text after gives the same source with \<open>{"x":2}\<close>; the
  text from the \<open>;\<close> on is as it was.
\<close>

theorem embedded_object_round_trip:
  "findJsonVariables parseTree (str ''const cfg = {\"x\":1};'' @ [10] @ str ''console.log(cfg);'')
     = [\<lparr>name = str ''cfg'', json = str ''{\"x\":1}'', jsonStart = 12, jsonEnd = 19\<rparr>]
   \<and> slice (str ''const cfg = {\"x\":1};'' @ [10] @ str ''console.log(cfg);'') 12 19
     = str ''{\"x\":1}''
   \<and> activate_variable fmt (str ''const cfg = {\"x\":1};'' @ [10] @ str ''console.log(cfg);'')
         \<lparr>name = str ''cfg'', json = str ''{\"x\":1}'', jsonStart = 12, jsonEnd = 19\<rparr>
         (parsePath (str ''x'')) (coerceValue (str ''2''))
     = Inr (str ''const cfg = {\"x\":2};'' @ [10] @ str ''console.log(cfg);'')
   \<and> drop 19 (str ''const cfg = {\"x\":2};'' @ [10] @ str ''console.log(cfg);'')
     = drop 19 (str ''const cfg = {\"x\":1};'' @ [10] @ str ''console.log(cfg);'')"
proof -
  have doc: "parse_document (str ''{\"x\":1}'') = Some (Obj 0 7 [(str ''x'', Leaf 5 1)])"
    by (simp add: document_eval)
  have found: "findJsonVariables parseTree
      (str ''const cfg = {\"x\":1};'' @ [10] @ str ''console.log(cfg);'')
     = [\<lparr>name = str ''cfg'', json = str ''{\"x\":1}'', jsonStart = 12, jsonEnd = 19\<rparr>]"
    using doc by (simp add: regex_eval parseTree_def)
  have path: "parsePath (str ''x'') = [Key (str ''x'')]"
    by (simp add: parsePath_eval)
  have val: "coerceValue (str ''2'') = JNumber (Finite 2)"
    by (simp add: JSON_eval)
  have edited: "activate_variable fmt
        (str ''const cfg = {\"x\":1};'' @ [10] @ str ''console.log(cfg);'')
        \<lparr>name = str ''cfg'', json = str ''{\"x\":1}'', jsonStart = 12, jsonEnd = 19\<rparr>
        [Key (str ''x'')] (JNumber (Finite 2))
     = Inr (str ''const cfg = {\"x\":2};'' @ [10] @ str ''console.log(cfg);'')"
    using doc by (simp add: edit_eval number_2) (simp add: str_def)
  have span: "slice (str ''const cfg = {\"x\":1};'' @ [10] @ str ''console.log(cfg);'') 12 19
     = str ''{\"x\":1}''"
    by (simp add: slice_def slice_index_def str_def)
  have rest: "drop 19 (str ''const cfg = {\"x\":2};'' @ [10] @ str ''console.log(cfg);'')
     = drop 19 (str ''const cfg = {\"x\":1};'' @ [10] @ str ''console.log(cfg);'')"
    by (simp add: str_def)
  from found span edited rest show ?thesis
    unfolding path val by blast
qed







end
